theory Spec2Isabelle
  imports Main "HOL-Library.Word" "HOL-Library.Sublist"
begin

unbundle bit_operations_syntax

section \<open>Shared data model\<close>

text \<open>
  \<open>decode::IntType\<close> is the 64-bit unsigned value every integer of a stream is held in;
  \<open>size_t\<close> is taken as 64 bits wide.  The seven wire encodings are the enumeration
  \<open>IntTypeFormat\<close>.
\<close>

type_synonym IntType = "64 word"
type_synonym size_t = "64 word"

datatype IntTypeFormat =
  Uint8 | Uint32 | Uint64 | Varint32 | Varint64 | Varuint32 | Varuint64

text \<open>
  Failures of the source that end a run: \<open>fatal(...)\<close>, a failed \<open>assert\<close>, the
  dereference of a null pointer, a kid index past the last kid, and the read of an
  abbreviation index that a count node does not have.
\<close>

datatype error = Fatal | AssertionFailed | NullDereference | OutOfRange | AbbreviationMissing

section \<open>IntReader: header values (interp/IntReader.cpp)\<close>

text \<open>
  The reader keeps the header vector of its input stream (pairs of a value and its
  format) and \<open>HeaderIndex\<close>, the index of the next unconsumed entry.
\<close>

record IntReader =
  Header :: "(IntType \<times> IntTypeFormat) list"
  HeaderIndex :: nat

text \<open>
  \<open>readHeaderValue(Format, Value)\<close>: the result is the returned boolean, the value left
  in the reference parameter \<open>Value\<close>, and the reader afterwards.
\<close>

definition readHeaderValue ::
  "IntTypeFormat \<Rightarrow> IntReader \<Rightarrow> bool \<times> IntType \<times> IntReader" where
  "readHeaderValue Format r =
     (if HeaderIndex r \<ge> length (Header r) then (False, 0, r)
      else
        let Pair = Header r ! HeaderIndex r;
            r' = r\<lparr>HeaderIndex := HeaderIndex r + 1\<rparr>
        in if snd Pair \<noteq> Format then (False, 0, r')
           else (True, fst Pair, r'))"

text \<open>A run of calls, one per requested format; the reader after the last of them.\<close>

fun readHeaderValues :: "IntTypeFormat list \<Rightarrow> IntReader \<Rightarrow> IntReader" where
  "readHeaderValues [] r = r"
| "readHeaderValues (f # fs) r = readHeaderValues fs (snd (snd (readHeaderValue f r)))"

section \<open>IntCompressor (intcomp/IntCompress.h)\<close>

text \<open>
  Of the input \<open>interp::StreamReader\<close> only the error flag that its \<open>errorsFound()\<close>
  reports is needed.  \<open>Input\<close> is a pointer member: \<open>None\<close> is \<open>nullptr\<close>.  The class
  has the three cutoff members below and no member for block-size minimisation.
\<close>

record StreamReader =
  ErrorsFound :: bool

record IntCompressor =
  Input :: "StreamReader option"
  CountCutoff :: "64 word"
  WeightCutoff :: "64 word"
  LengthLimit :: size_t

text \<open>
  \<open>errorsFound()\<close> is \<open>Input == nullptr && Input->errorsFound()\<close>: the right operand
  is evaluated only when the pointer is null, and then dereferences it.
\<close>

definition errorsFound :: "IntCompressor \<Rightarrow> error + bool" where
  "errorsFound c =
     (if Input c = None
      then (case Input c of None \<Rightarrow> Inl NullDereference | Some r \<Rightarrow> Inr (ErrorsFound r))
      else Inr False)"

definition setCountCutoff :: "64 word \<Rightarrow> IntCompressor \<Rightarrow> IntCompressor" where
  "setCountCutoff NewCutoff c = c\<lparr>CountCutoff := NewCutoff\<rparr>"

definition setWeightCutoff :: "64 word \<Rightarrow> IntCompressor \<Rightarrow> IntCompressor" where
  "setWeightCutoff NewCutoff c = c\<lparr>WeightCutoff := NewCutoff\<rparr>"

definition setLengthLimit :: "size_t \<Rightarrow> IntCompressor \<Rightarrow> IntCompressor" where
  "setLengthLimit NewLimit c = c\<lparr>LengthLimit := NewLimit\<rparr>"

text \<open>\<open>setMinimizeBlockSize(NewValue)\<close> has the body \<open>(void)NewValue;\<close>.\<close>

definition setMinimizeBlockSize :: "bool \<Rightarrow> IntCompressor \<Rightarrow> IntCompressor" where
  "setMinimizeBlockSize NewValue c = c"

section \<open>Interpreter: cursors and headroom (interp/Interpreter.cpp)\<close>

text \<open>
  A read cursor, as far as the interpreter consults it here: whether the end of the
  input is frozen, the current byte address, and \<open>streamSize\<close>, the number of bytes the
  producer has buffered so far.
\<close>

record ReadCursor =
  isEofFrozen :: bool
  CurByteAddress :: size_t
  streamSize :: size_t

definition kResumeHeadroom :: size_t where
  "kResumeHeadroom = 100"

text \<open>
  \<open>hasEnoughHeadroom()\<close> compares the current byte address plus the headroom with the
  current byte address again; the addition is that of \<open>size_t\<close>.
\<close>

definition hasEnoughHeadroom :: "ReadCursor \<Rightarrow> bool" where
  "hasEnoughHeadroom rp =
     (isEofFrozen rp \<or>
      CurByteAddress rp + kResumeHeadroom \<le> CurByteAddress rp)"

section \<open>Interpreter: filter nodes and state\<close>

text \<open>
  The node types that \<open>Interpreter::eval\<close> distinguishes.  A node carries its type, the
  value of an integer or one-argument node, the name of a symbol node, and its kids.
\<close>

datatype NodeType =
  NO_SUCH_NODETYPE | OpConvert | OpFilter | OpBlockEndNoArgs | OpSymbol
| OpFile | OpSection | OpUndefine | OpRename | OpVersion | OpUnknownSection
| OpParam | OpDefine | OpMap | OpOpcode | OpLastRead | OpSwitch | OpCase | OpBlock
| OpAnd | OpNot | OpOr | OpStream | OpError | OpEval | OpIfThen | OpIfThenElse
| OpI32Const | OpI64Const | OpU8Const | OpU32Const | OpU64Const
| OpLoop | OpLoopUnbounded | OpWrite | OpPeek | OpRead | OpSequence
| OpUint8NoArgs | OpUint8OneArg | OpUint32NoArgs | OpUint32OneArg
| OpUint64NoArgs | OpUint64OneArg | OpVarint32NoArgs | OpVarint32OneArg
| OpVarint64NoArgs | OpVarint64OneArg | OpVaruint32NoArgs | OpVaruint32OneArg
| OpVaruint64NoArgs | OpVaruint64OneArg | OpVoid

datatype Node =
  Node (getType: NodeType) (getValue: IntType) (getName: string) (Kids: "Node list")



datatype StreamType = StreamType_Bit | StreamType_Byte | StreamType_Int | StreamType_Ast

text \<open>
  The stream object behind \<open>Reader\<close> or \<open>Writer\<close>: a read stream or a write stream,
  with the \<open>StreamType\<close> that is its run-time class id.  \<open>ByteReadStream\<close> and
  \<open>ByteWriteStream\<close> are the two objects the constructor makes.
\<close>

datatype StreamObject = ReadStreamObject StreamType | WriteStreamObject StreamType


definition ByteReadStream :: StreamObject where
  "ByteReadStream = ReadStreamObject StreamType_Byte"

definition ByteWriteStream :: StreamObject where
  "ByteWriteStream = WriteStreamObject StreamType_Byte"



record WriteCursor =
  CurAddress :: size_t

text \<open>
  The calls that back-patch a block size, as the writer receives them: the cursor and
  the arguments of each call.
\<close>

datatype WriterCall =
  Call_writeFixedBlockSize WriteCursor size_t
| Call_writeVarintBlockSize WriteCursor size_t
| Call_moveBlock WriteCursor size_t size_t

text \<open>
  The members of \<open>Interpreter\<close> the modelled methods read or write.  \<open>WriterCalls\<close> is
  the record of the block-size calls made on \<open>Writer\<close> so far.
\<close>

record Interp =
  ReadPos :: ReadCursor
  Reader :: StreamObject
  WritePos :: WriteCursor
  Writer :: StreamObject
  LastReadValue :: IntType
  MinimizeBlockSize :: bool
  WriterCalls :: "WriterCall list"

text \<open>
  The constructor: byte streams on both sides, \<open>LastReadValue(0)\<close>,
  \<open>MinimizeBlockSize(false)\<close>; both cursors at the start of empty queues.
\<close>

definition Interpreter_init :: Interp where
  "Interpreter_init =
     \<lparr>ReadPos = \<lparr>isEofFrozen = False, CurByteAddress = 0, streamSize = 0\<rparr>,
      Reader = ByteReadStream,
      WritePos = \<lparr>CurAddress = 0\<rparr>,
      Writer = ByteWriteStream,
      LastReadValue = 0,
      MinimizeBlockSize = False,
      WriterCalls = []\<rparr>"

subsection \<open>The \<open>OpStream\<close> case of \<open>eval\<close>\<close>



subsection \<open>Reading a node\<close>

text \<open>
  The byte and bit reads of \<open>Reader\<close> (\<open>readUint8(ReadPos)\<close>,
  \<open>readUint8Bits(ReadPos, n)\<close>, ...) belong to the stream layer, which these sources
  use and do not define.  They are a parameter: for the type of an integer node and its
  argument, either a failure or the value read and the cursor after the read.
\<close>

type_synonym ReadStream =
  "NodeType \<Rightarrow> IntType \<Rightarrow> ReadCursor \<Rightarrow> error + (IntType \<times> ReadCursor)"

text \<open>
  \<open>read(Nd)\<close> pushes a \<open>Read\<close> frame for \<open>Nd\<close> and calls \<open>readBackFilled\<close>, which
  lets \<open>runMethods\<close> run the frame; then it pops the value the frame returned.
  \<open>runMethods\<close> runs a frame only while \<open>hasEnoughHeadroom()\<close> holds, and while it
  does not hold \<open>readBackFilled\<close> only advances its fill cursor: \<open>read\<close> does not return
  before the producer has changed the queue.  That is the result \<open>None\<close>.  Otherwise
  the function gives the value and the interpreter afterwards, following the
  \<open>InterpMethod::Read\<close> switch of \<open>runMethods\<close>: integer constants, \<open>Peek\<close>, \<open>LastRead\<close>,
  the fourteen integer formats, \<open>Void\<close>, and \<open>fatal\<close> for every other node type.

  \<open>Peek\<close> is a nested \<open>read\<close> of kid 0 between a copy of the read cursor and the swap
  that puts the copy back.  The copy shares the queue with \<open>ReadPos\<close>: the swap puts
  back the position, while the frozen flag and the buffered size are those of the
  queue as the nested read left it.
\<close>

fun read ::
  "ReadStream \<Rightarrow> Node \<Rightarrow> Interp \<Rightarrow> (error + (IntType \<times> Interp)) option" where
  "read rd (Node Type v nm kids) st =
     (if \<not> hasEnoughHeadroom (ReadPos st) then None
      else if Type \<in> {OpI32Const, OpI64Const, OpU8Const, OpU32Const, OpU64Const}
      then Some (Inr (v, st))
      else if Type = OpPeek then
        (case kids of
           [] \<Rightarrow> Some (Inl OutOfRange)
         | kid0 # _ \<Rightarrow>
             let InitialPos = ReadPos st in
             (case read rd kid0 st of
                None \<Rightarrow> None
              | Some (Inl e) \<Rightarrow> Some (Inl e)
              | Some (Inr (Value, st1)) \<Rightarrow>
                  let st2 = st1\<lparr>LastReadValue := Value\<rparr>;
                      st3 = st2\<lparr>ReadPos :=
                              (ReadPos st2)\<lparr>CurByteAddress := CurByteAddress InitialPos\<rparr>\<rparr>
                  in Some (Inr (LastReadValue st3, st3))))
      else if Type = OpLastRead then Some (Inr (LastReadValue st, st))
      else if Type \<in> {OpUint8NoArgs, OpUint8OneArg, OpUint32NoArgs, OpUint32OneArg,
                      OpUint64NoArgs, OpUint64OneArg, OpVarint32NoArgs, OpVarint32OneArg,
                      OpVarint64NoArgs, OpVarint64OneArg, OpVaruint32NoArgs,
                      OpVaruint32OneArg, OpVaruint64NoArgs, OpVaruint64OneArg} then
        (case rd Type v (ReadPos st) of
           Inl e \<Rightarrow> Some (Inl e)
         | Inr (Value, pos) \<Rightarrow> Some (Inr (Value, st\<lparr>ReadPos := pos\<rparr>)))
      else if Type = OpVoid then Some (Inr (0, st))
      else Some (Inl Fatal))"

text \<open>
  The interpreter as constructed, on an input whose end is frozen: there
  \<open>hasEnoughHeadroom()\<close> holds and the driver runs.
\<close>

definition Interpreter_frozen :: Interp where
  "Interpreter_frozen =
     Interpreter_init\<lparr>ReadPos := \<lparr>isEofFrozen = True, CurByteAddress = 0, streamSize = 2\<rparr>\<rparr>"

subsection \<open>Opcodes\<close>







text \<open>
  A stream for the examples: every integer read yields \<open>0x42\<close> and moves the cursor
  on by one byte.
\<close>

definition rd_example :: ReadStream where
  "rd_example Type v pos = Inr (0x42, pos\<lparr>CurByteAddress := CurByteAddress pos + 1\<rparr>)"

subsection \<open>Blocks\<close>

text \<open>
  The block operations of the reader and writer streams that \<open>decompressBlock\<close> calls
  are defined in the stream layer, outside these sources; they are parameters.  Each
  writer operation takes the cursor it writes at and gives the cursor after the write.
\<close>

record BlockOps =
  readBlockSize :: "ReadCursor \<Rightarrow> 32 word \<times> ReadCursor"
  pushEobAddress :: "ReadCursor \<Rightarrow> 32 word \<Rightarrow> ReadCursor"
  popEobAddress :: "ReadCursor \<Rightarrow> ReadCursor"
  writeFixedBlockSize :: "WriteCursor \<Rightarrow> size_t \<Rightarrow> WriteCursor"
  writeVarintBlockSize :: "WriteCursor \<Rightarrow> size_t \<Rightarrow> WriteCursor"
  getStreamAddress :: "WriteCursor \<Rightarrow> size_t"
  getBlockSize :: "WriteCursor \<Rightarrow> WriteCursor \<Rightarrow> size_t"
  moveBlock :: "WriteCursor \<Rightarrow> size_t \<Rightarrow> size_t \<Rightarrow> WriteCursor"

text \<open>
  \<open>evalOrCopy(Nd)\<close>: evaluate the node, or with a null node copy the bytes up to the
  end of the block.  The evaluator and the copy loop are parameters.
\<close>

definition evalOrCopy ::
  "(Node \<Rightarrow> Interp \<Rightarrow> error + Interp) \<Rightarrow> (Interp \<Rightarrow> error + Interp)
     \<Rightarrow> Node option \<Rightarrow> Interp \<Rightarrow> error + Interp" where
  "evalOrCopy eval copyToEob Nd st =
     (case Nd of Some n \<Rightarrow> eval n st | None \<Rightarrow> copyToEob st)"

text \<open>
  \<open>decompressBlock(Code)\<close> up to the call of \<open>evalOrCopy\<close>: the block size is read
  and pushed as end of block, and a fixed-width size 0 is written at the write
  position, which \<open>BlockStart\<close> remembers.
\<close>

definition decompressBlock_enter :: "BlockOps \<Rightarrow> Interp \<Rightarrow> Interp" where
  "decompressBlock_enter ops st =
     (let (OldSize, rp1) = readBlockSize ops (ReadPos st);
          rp2 = pushEobAddress ops rp1 OldSize
      in st\<lparr>ReadPos := rp2,
            WritePos := writeFixedBlockSize ops (WritePos st) 0,
            WriterCalls := WriterCalls st @ [Call_writeFixedBlockSize (WritePos st) 0]\<rparr>)"

text \<open>
  \<open>decompressBlock(Code)\<close> after \<open>evalOrCopy\<close> has returned: the back-patch of the
  size at \<open>BlockStart\<close>, chosen by the interpreter's member \<open>MinimizeBlockSize\<close>.
\<close>

definition decompressBlock_backpatch ::
  "BlockOps \<Rightarrow> WriteCursor \<Rightarrow> size_t \<Rightarrow> Interp \<Rightarrow> Interp" where
  "decompressBlock_backpatch ops BlockStart SizeAfterSizeWrite st =
     (let NewSize = getBlockSize ops BlockStart (WritePos st) in
      if \<not> MinimizeBlockSize st then
        st\<lparr>WriterCalls := WriterCalls st @ [Call_writeFixedBlockSize BlockStart NewSize]\<rparr>
      else
        let st1 = st\<lparr>WriterCalls :=
                      WriterCalls st @ [Call_writeVarintBlockSize BlockStart NewSize]\<rparr>;
            BlockStart1 = writeVarintBlockSize ops BlockStart NewSize;
            SizeAfterBackPatch = getStreamAddress ops BlockStart1;
            Diff = SizeAfterSizeWrite - SizeAfterBackPatch
        in if Diff \<noteq> 0 then
             let CurAddress = getStreamAddress ops (WritePos st1);
                 st2 = st1\<lparr>WriterCalls := WriterCalls st1 @
                         [Call_moveBlock BlockStart1 SizeAfterSizeWrite
                            ((CurAddress - Diff) - SizeAfterBackPatch)]\<rparr>;
                 BlockStart2 = moveBlock ops BlockStart1 SizeAfterSizeWrite
                                 ((CurAddress - Diff) - SizeAfterBackPatch)
             in st2\<lparr>WritePos := BlockStart2\<rparr>
           else st1)"

definition decompressBlock ::
  "BlockOps \<Rightarrow> (Node \<Rightarrow> Interp \<Rightarrow> error + Interp) \<Rightarrow> (Interp \<Rightarrow> error + Interp)
     \<Rightarrow> Node option \<Rightarrow> Interp \<Rightarrow> error + Interp" where
  "decompressBlock ops eval copyToEob Code st =
     (let BlockStart = WritePos st;
          st1 = decompressBlock_enter ops st;
          SizeAfterSizeWrite = getStreamAddress ops (WritePos st1)
      in case evalOrCopy eval copyToEob Code st1 of
           Inl e \<Rightarrow> Inl e
         | Inr st2 \<Rightarrow>
             let st3 = decompressBlock_backpatch ops BlockStart SizeAfterSizeWrite st2
             in Inr (st3\<lparr>ReadPos := popEobAddress ops (ReadPos st3)\<rparr>))"

text \<open>
  Block operations for the examples: sizes are reserved in 5 bytes, a variable-length
  size takes 1 byte, addresses are those of the cursors, the block size is the
  distance between two cursors less the reservation, and nothing is read.
\<close>

definition ops_example :: BlockOps where
  "ops_example =
     \<lparr>readBlockSize = (\<lambda>rp. (0, rp)),
      pushEobAddress = (\<lambda>rp sz. rp),
      popEobAddress = (\<lambda>rp. rp),
      writeFixedBlockSize = (\<lambda>c sz. c\<lparr>CurAddress := CurAddress c + 5\<rparr>),
      writeVarintBlockSize = (\<lambda>c sz. c\<lparr>CurAddress := CurAddress c + 1\<rparr>),
      getStreamAddress = CurAddress,
      getBlockSize = (\<lambda>b w. CurAddress w - CurAddress b - 5),
      moveBlock = (\<lambda>c a n. c\<lparr>CurAddress := CurAddress c + n\<rparr>)\<rparr>"

definition compressor_example :: IntCompressor where
  "compressor_example =
     \<lparr>Input = Some \<lparr>ErrorsFound = False\<rparr>, CountCutoff = 10, WeightCutoff = 100,
      LengthLimit = 5\<rparr>"

section \<open>The count trie (intcomp/IntCountNode.h, not among these sources)\<close>

text \<open>
  Modelled from the spec: the count trie, whose declaration is missing.  Each node carries
  \<open>Count\<close>, \<open>Weight\<close> and an optional \<open>AbbrevIndex\<close>.  An integer node is reached
  from the root along a path of values and is named by that path; its \<open>PathLength\<close> is
  the number of integers along the path.  The root holds the integer nodes below it and
  the singleton nodes of the distinguished events.
\<close>

record CountNode =
  Count :: nat
  Weight :: nat
  AbbrevIndex :: "IntType option"

type_synonym IntPtr = "IntType list"

record RootCountNode =
  Successors :: "(IntPtr \<times> CountNode) list"
  DefaultSingle :: CountNode
  DefaultMultiple :: CountNode
  BlockEnter :: CountNode
  BlockExit :: CountNode
  Align :: CountNode

definition newCountNode :: CountNode where
  "newCountNode = \<lparr>Count = 0, Weight = 0, AbbrevIndex = None\<rparr>"

text \<open>
  Modelled from the spec: \<open>lookup(parent, v)\<close> returns the child of \<open>parent\<close> for the
  integer \<open>v\<close>, creating it if absent.  \<open>lookup(Root, v)\<close> is the case of the empty
  path.  The result is the trie, with the child in it, and the child.
\<close>

definition lookup :: "RootCountNode \<Rightarrow> IntPtr \<Rightarrow> IntType \<Rightarrow> RootCountNode \<times> IntPtr" where
  "lookup R Nd Value =
     (let Succ = Nd @ [Value] in
      case map_of (Successors R) Succ of
        Some n \<Rightarrow> (R, Succ)
      | None \<Rightarrow> (R\<lparr>Successors := Successors R @ [(Succ, newCountNode)]\<rparr>, Succ))"

text \<open>
  Modelled from the spec: \<open>Nd->getAbbrevIndex()\<close> and \<open>Nd->hasAbbrevIndex()\<close> of the
  integer node at a path (no index where there is no node), and \<open>Nd->getPathLength()\<close>.
\<close>

definition getAbbrevIndex :: "RootCountNode \<Rightarrow> IntPtr \<Rightarrow> IntType option" where
  "getAbbrevIndex R Nd =
     (case map_of (Successors R) Nd of None \<Rightarrow> None | Some n \<Rightarrow> AbbrevIndex n)"

definition hasAbbrevIndex :: "RootCountNode \<Rightarrow> IntPtr \<Rightarrow> bool" where
  "hasAbbrevIndex R Nd = (getAbbrevIndex R Nd \<noteq> None)"

definition getPathLength :: "IntPtr \<Rightarrow> nat" where
  "getPathLength Nd = length Nd"

section \<open>AbbrevAssignWriter (intcomp/AbbrevAssignWriter.cpp)\<close>

text \<open>
  A call of one of the seven integer write methods of a writer, with the argument in
  the method's parameter type.  \<open>callValue\<close> is the argument converted to \<open>IntType\<close>
  (sign-extended for the two signed parameter types), as \<open>bufferValue(Value)\<close>
  receives it.
\<close>

datatype WriteCall =
  WriteUint8 "8 word" | WriteUint32 "32 word" | WriteUint64 "64 word"
| WriteVarint32 "32 word" | WriteVarint64 "64 word"
| WriteVaruint32 "32 word" | WriteVaruint64 "64 word"

fun callValue :: "WriteCall \<Rightarrow> IntType" where
  "callValue (WriteUint8 v) = ucast v"
| "callValue (WriteUint32 v) = ucast v"
| "callValue (WriteUint64 v) = v"
| "callValue (WriteVarint32 v) = scast v"
| "callValue (WriteVarint64 v) = v"
| "callValue (WriteVaruint32 v) = ucast v"
| "callValue (WriteVaruint64 v) = v"

datatype PredefinedSymbol =
  Unknown | File | Block_enter | Block_exit | Block_enter_writeonly | Block_exit_writeonly
| Align_symbol

text \<open>What the writer behind \<open>Writer\<close> receives, in order.\<close>

datatype WriterEvent =
  IntWrite WriteCall | ActionWrite PredefinedSymbol | FreezeEof

text \<open>
  The members of the class.  \<open>Buffer\<close> is the circular buffer, oldest value first,
  with its capacity; \<open>Output\<close> is the sequence of calls made on the member \<open>Writer\<close>.
\<close>

record AbbrevAssignWriter =
  Root :: RootCountNode
  Output :: "WriterEvent list"
  Buffer :: "IntType list"
  BufferCapacity :: nat
  DefaultValues :: "IntType list"
  AbbrevFormat :: IntTypeFormat
  DefaultFormat :: IntTypeFormat
  LoopSizeFormat :: IntTypeFormat

definition Buffer_full :: "AbbrevAssignWriter \<Rightarrow> bool" where
  "Buffer_full w = (length (Buffer w) = BufferCapacity w)"

text \<open>
  \<open>writeValue(Value, Format)\<close>: the write method of \<open>Writer\<close> that the format names,
  its argument converted to the parameter type of that method.
\<close>

definition formatCall :: "IntTypeFormat \<Rightarrow> IntType \<Rightarrow> WriteCall" where
  "formatCall Format Value =
     (case Format of
        Uint8 \<Rightarrow> WriteUint8 (ucast Value)
      | Uint32 \<Rightarrow> WriteUint32 (ucast Value)
      | Uint64 \<Rightarrow> WriteUint64 Value
      | Varint32 \<Rightarrow> WriteVarint32 (ucast Value)
      | Varint64 \<Rightarrow> WriteVarint64 Value
      | Varuint32 \<Rightarrow> WriteVaruint32 (ucast Value)
      | Varuint64 \<Rightarrow> WriteVaruint64 Value)"

definition writeValueFormat ::
  "IntType \<Rightarrow> IntTypeFormat \<Rightarrow> AbbrevAssignWriter \<Rightarrow> AbbrevAssignWriter" where
  "writeValueFormat Value Format w =
     w\<lparr>Output := Output w @ [IntWrite (formatCall Format Value)]\<rparr>"

text \<open>
  \<open>flushDefaultValues()\<close>.  The index of a singleton that has none cannot be read:
  that is the failure \<open>AbbreviationMissing\<close>.
\<close>

definition flushDefaultValues :: "AbbrevAssignWriter \<Rightarrow> error + AbbrevAssignWriter" where
  "flushDefaultValues w =
     (if DefaultValues w = [] then Inr w
      else if length (DefaultValues w) = 1 then
        (case AbbrevIndex (DefaultSingle (Root w)) of
           None \<Rightarrow> Inl AbbreviationMissing
         | Some Index \<Rightarrow>
             let w1 = writeValueFormat Index (AbbrevFormat w) w;
                 w2 = writeValueFormat (DefaultValues w1 ! 0) (DefaultFormat w1) w1
             in Inr (w2\<lparr>DefaultValues := []\<rparr>))
      else
        (case AbbrevIndex (DefaultMultiple (Root w)) of
           None \<Rightarrow> Inl AbbreviationMissing
         | Some Index \<Rightarrow>
             let w1 = writeValueFormat Index (AbbrevFormat w) w;
                 w2 = writeValueFormat (of_nat (length (DefaultValues w1))) (LoopSizeFormat w1) w1;
                 w3 = fold (\<lambda>V. writeValueFormat V (DefaultFormat w2)) (DefaultValues w2) w2
             in Inr (w3\<lparr>DefaultValues := []\<rparr>)))"

definition forwardAbbrevValue :: "IntType \<Rightarrow> AbbrevAssignWriter \<Rightarrow> error + AbbrevAssignWriter" where
  "forwardAbbrevValue Value w =
     (case flushDefaultValues w of
        Inl e \<Rightarrow> Inl e
      | Inr w1 \<Rightarrow> Inr (writeValueFormat Value (AbbrevFormat w1) w1))"

definition forwardOtherValue :: "IntType \<Rightarrow> AbbrevAssignWriter \<Rightarrow> AbbrevAssignWriter" where
  "forwardOtherValue Value w = w\<lparr>DefaultValues := DefaultValues w @ [Value]\<rparr>"

fun popValuesFromBuffer :: "nat \<Rightarrow> AbbrevAssignWriter \<Rightarrow> AbbrevAssignWriter" where
  "popValuesFromBuffer 0 w = w"
| "popValuesFromBuffer (Suc i) w =
     (if Buffer w = [] then w
      else popValuesFromBuffer i (w\<lparr>Buffer := tl (Buffer w)\<rparr>))"

text \<open>
  The loop of \<open>writeFromBuffer\<close> over the buffered values: \<open>Nd\<close> and \<open>MaxNd\<close> start
  null (\<open>None\<close>); each value advances \<open>Nd\<close> by a lookup, from the root while \<open>Nd\<close> is
  null, and \<open>MaxNd\<close> becomes \<open>Nd\<close> whenever \<open>Nd\<close> has an abbreviation index.
\<close>

fun collect ::
  "IntType list \<Rightarrow> IntPtr option \<Rightarrow> IntPtr option \<Rightarrow> RootCountNode
     \<Rightarrow> RootCountNode \<times> IntPtr option \<times> IntPtr option" where
  "collect [] Nd MaxNd R = (R, Nd, MaxNd)"
| "collect (Value # Values) Nd MaxNd R =
     (let (Root1, Nd1) = (case Nd of Some n \<Rightarrow> lookup R n Value
                                   | None \<Rightarrow> lookup R [] Value);
          MaxNd1 = (if hasAbbrevIndex Root1 Nd1 then Some Nd1 else MaxNd)
      in collect Values (Some Nd1) MaxNd1 Root1)"

definition writeFromBuffer :: "AbbrevAssignWriter \<Rightarrow> error + AbbrevAssignWriter" where
  "writeFromBuffer w =
     (if Buffer w = [] then Inr w
      else
        let (Root1, Nd, MaxNd) = collect (Buffer w) None None (Root w);
            w1 = w\<lparr>Root := Root1\<rparr>
        in case MaxNd of
             None \<Rightarrow> Inr (popValuesFromBuffer 1 (forwardOtherValue (Buffer w1 ! 0) w1))
           | Some M \<Rightarrow>
               (case getAbbrevIndex (Root w1) M of
                  None \<Rightarrow> Inl AbbreviationMissing
                | Some Index \<Rightarrow>
                    (case forwardAbbrevValue Index w1 of
                       Inl e \<Rightarrow> Inl e
                     | Inr w2 \<Rightarrow> Inr (popValuesFromBuffer (getPathLength M) w2))))"

function writeUntilBufferEmpty :: "AbbrevAssignWriter \<Rightarrow> error + AbbrevAssignWriter" where
  "writeUntilBufferEmpty w =
     (if Buffer w = [] then Inr w
      else case writeFromBuffer w of
             Inl e \<Rightarrow> Inl e
           | Inr w1 \<Rightarrow> writeUntilBufferEmpty w1)"
  by pat_completeness auto

lemma popValuesFromBuffer_Buffer: "Buffer (popValuesFromBuffer i w) = drop i (Buffer w)"
  by (induction i arbitrary: w) (auto simp: drop_Suc)

lemma collect_Max_nonempty:
  "collect Values Nd MaxNd R = (Root1, Nd1, Some M) \<Longrightarrow> MaxNd \<noteq> Some [] \<Longrightarrow> M \<noteq> []"
  by (induction Values arbitrary: Nd MaxNd R)
     (auto simp: lookup_def Let_def split: option.splits if_splits prod.splits)

lemma flushDefaultValues_Buffer: "flushDefaultValues w = Inr w1 \<Longrightarrow> Buffer w1 = Buffer w"
proof -
  have fold_Buffer: "Buffer (fold (\<lambda>V. writeValueFormat V F) vs u) = Buffer u" for F vs u
    by (induction vs arbitrary: u) (simp_all add: writeValueFormat_def)
  show "flushDefaultValues w = Inr w1 \<Longrightarrow> Buffer w1 = Buffer w"
    by (auto simp: flushDefaultValues_def Let_def writeValueFormat_def fold_Buffer
        split: if_splits option.splits)
qed

lemma forwardAbbrevValue_Buffer: "forwardAbbrevValue k w = Inr w1 \<Longrightarrow> Buffer w1 = Buffer w"
  by (auto simp: forwardAbbrevValue_def writeValueFormat_def
      split: sum.splits dest: flushDefaultValues_Buffer)

lemma writeFromBuffer_shrinks:
  assumes "writeFromBuffer w = Inr w1" and "Buffer w \<noteq> []"
  shows "length (Buffer w1) < length (Buffer w)"
proof -
  obtain Root1 Nd MaxNd where c: "collect (Buffer w) None None (Root w) = (Root1, Nd, MaxNd)"
    by (metis prod_cases3)
  show ?thesis
  proof (cases MaxNd)
    case None
    with assms c show ?thesis
      by (auto simp: writeFromBuffer_def forwardOtherValue_def)
  next
    case (Some M)
    with c have "M \<noteq> []" by (auto dest: collect_Max_nonempty)
    with assms c Some show ?thesis
      by (auto simp: writeFromBuffer_def popValuesFromBuffer_Buffer getPathLength_def
          split: option.splits sum.splits dest!: forwardAbbrevValue_Buffer)
  qed
qed

termination writeUntilBufferEmpty
  by (relation "measure (\<lambda>w. length (Buffer w))") (auto dest: writeFromBuffer_shrinks)

declare writeUntilBufferEmpty.simps [simp del]

text \<open>
  \<open>bufferValue(Value)\<close>: the assertion that the buffer is not full, the push, and one
  step of \<open>writeFromBuffer\<close> when the push has filled the buffer.
\<close>

definition bufferValue :: "IntType \<Rightarrow> AbbrevAssignWriter \<Rightarrow> error + AbbrevAssignWriter" where
  "bufferValue Value w =
     (if Buffer_full w then Inl AssertionFailed
      else
        let w1 = w\<lparr>Buffer := Buffer w @ [Value]\<rparr>
        in if \<not> Buffer_full w1 then Inr w1 else writeFromBuffer w1)"

text \<open>
  The seven integer write methods and \<open>writeValue(Value, Node)\<close>: each buffers its
  argument and returns true.
\<close>

definition writeInt :: "WriteCall \<Rightarrow> AbbrevAssignWriter \<Rightarrow> error + AbbrevAssignWriter" where
  "writeInt c w = bufferValue (callValue c) w"

definition writeValue :: "IntType \<Rightarrow> AbbrevAssignWriter \<Rightarrow> error + AbbrevAssignWriter" where
  "writeValue Value w = bufferValue Value w"

definition writeFreezeEof :: "AbbrevAssignWriter \<Rightarrow> error + AbbrevAssignWriter" where
  "writeFreezeEof w =
     (case writeUntilBufferEmpty w of
        Inl e \<Rightarrow> Inl e
      | Inr w1 \<Rightarrow>
          (case flushDefaultValues w1 of
             Inl e \<Rightarrow> Inl e
           | Inr w2 \<Rightarrow> Inr (w2\<lparr>Output := Output w2 @ [FreezeEof]\<rparr>)))"

text \<open>
  \<open>writeAction(Action)\<close>.  \<open>Sym\<close> is the predefined symbol of kid 0 of the action,
  \<open>None\<close> when that kid is not a symbol node.  The boolean is the value returned; for
  an action passed on to \<open>Writer\<close> it is that writer's answer \<open>fwd\<close>.
\<close>

definition writeActionBlock ::
  "CountNode \<Rightarrow> AbbrevAssignWriter \<Rightarrow> error + (bool \<times> AbbrevAssignWriter)" where
  "writeActionBlock Nd w =
     (case writeUntilBufferEmpty w of
        Inl e \<Rightarrow> Inl e
      | Inr w1 \<Rightarrow>
          (case flushDefaultValues w1 of
             Inl e \<Rightarrow> Inl e
           | Inr w2 \<Rightarrow>
               (case AbbrevIndex Nd of
                  None \<Rightarrow> Inl AssertionFailed
                | Some Index \<Rightarrow>
                    (case forwardAbbrevValue Index w2 of
                       Inl e \<Rightarrow> Inl e
                     | Inr w3 \<Rightarrow> Inr (True, w3)))))"

definition writeAction ::
  "(PredefinedSymbol \<Rightarrow> bool) \<Rightarrow> PredefinedSymbol option \<Rightarrow> AbbrevAssignWriter
     \<Rightarrow> error + (bool \<times> AbbrevAssignWriter)" where
  "writeAction fwd Sym w =
     (case Sym of
        None \<Rightarrow> Inr (False, w)
      | Some Block_enter \<Rightarrow> writeActionBlock (BlockEnter (Root w)) w
      | Some Block_exit \<Rightarrow> writeActionBlock (BlockExit (Root w)) w
      | Some s \<Rightarrow> Inr (fwd s, w\<lparr>Output := Output w @ [ActionWrite s]\<rparr>))"

text \<open>
  A call that feeds one value to the writer: one of the seven integer write methods,
  or \<open>writeValue(Value, Node)\<close>; \<open>fedValue\<close> is the value it buffers.
\<close>

datatype Fed = FedInt WriteCall | FedValue IntType

fun fedValue :: "Fed \<Rightarrow> IntType" where
  "fedValue (FedInt c) = callValue c"
| "fedValue (FedValue v) = v"

fun feed :: "Fed \<Rightarrow> AbbrevAssignWriter \<Rightarrow> error + AbbrevAssignWriter" where
  "feed (FedInt c) w = writeInt c w"
| "feed (FedValue v) w = writeValue v w"

fun feedAll :: "Fed list \<Rightarrow> AbbrevAssignWriter \<Rightarrow> error + AbbrevAssignWriter" where
  "feedAll [] w = Inr w"
| "feedAll (x # xs) w = (case feed x w of Inl e \<Rightarrow> Inl e | Inr w1 \<Rightarrow> feedAll xs w1)"

text \<open>A public method of the writer, and the effect of calling it.\<close>

datatype Operation =
  CallWrite Fed
| CallWriteAction "PredefinedSymbol option"
| CallWriteFreezeEof

fun perform ::
  "(PredefinedSymbol \<Rightarrow> bool) \<Rightarrow> Operation \<Rightarrow> AbbrevAssignWriter
     \<Rightarrow> error + AbbrevAssignWriter" where
  "perform fwd (CallWrite x) w = feed x w"
| "perform fwd (CallWriteAction Sym) w =
     (case writeAction fwd Sym w of Inl e \<Rightarrow> Inl e | Inr (b, w1) \<Rightarrow> Inr w1)"
| "perform fwd CallWriteFreezeEof w = writeFreezeEof w"

text \<open>
  The groups of the output.  An abbreviation group is the index of an integer node,
  written in \<open>AbbrevFormat\<close>, and stands for the values along the node's path.  A
  single default is the index of \<open>DefaultSingle\<close> and one value in \<open>DefaultFormat\<close>.
  A multiple default is the index of \<open>DefaultMultiple\<close>, the number of values in
  \<open>LoopSizeFormat\<close> and the values, two or more, in \<open>DefaultFormat\<close>.
  \<open>groupCalls\<close> is the sequence of write calls that makes up a group, \<open>None\<close> when the
  trie has no index for it.
\<close>

datatype Group =
  AbbrevGroup IntPtr | DefaultSingleGroup IntType | DefaultMultipleGroup "IntType list"

fun groupValues :: "Group \<Rightarrow> IntType list" where
  "groupValues (AbbrevGroup p) = p"
| "groupValues (DefaultSingleGroup v) = [v]"
| "groupValues (DefaultMultipleGroup vs) = vs"

fun groupCalls :: "AbbrevAssignWriter \<Rightarrow> Group \<Rightarrow> WriteCall list option" where
  "groupCalls w (AbbrevGroup p) =
     (if p = [] then None
      else case getAbbrevIndex (Root w) p of
             None \<Rightarrow> None
           | Some Index \<Rightarrow> Some [formatCall (AbbrevFormat w) Index])"
| "groupCalls w (DefaultSingleGroup v) =
     (case AbbrevIndex (DefaultSingle (Root w)) of
        None \<Rightarrow> None
      | Some Index \<Rightarrow>
          Some [formatCall (AbbrevFormat w) Index, formatCall (DefaultFormat w) v])"
| "groupCalls w (DefaultMultipleGroup vs) =
     (if length vs < 2 then None
      else case AbbrevIndex (DefaultMultiple (Root w)) of
             None \<Rightarrow> None
           | Some Index \<Rightarrow>
               Some (formatCall (AbbrevFormat w) Index #
                     formatCall (LoopSizeFormat w) (of_nat (length vs)) #
                     map (formatCall (DefaultFormat w)) vs))"

fun groupsCalls :: "AbbrevAssignWriter \<Rightarrow> Group list \<Rightarrow> WriteCall list option" where
  "groupsCalls w [] = Some []"
| "groupsCalls w (g # gs) =
     (case groupCalls w g of
        None \<Rightarrow> None
      | Some cs \<Rightarrow> (case groupsCalls w gs of None \<Rightarrow> None | Some ds \<Rightarrow> Some (cs @ ds)))"

text \<open>
  An example writer (scenario S2 of the specification): capacity 3, the path 7, 7, 7
  abbreviated by index 5, \<open>DefaultSingle\<close> by index 1.
\<close>

definition root_example :: RootCountNode where
  "root_example =
     \<lparr>Successors =
        [([7], \<lparr>Count = 4, Weight = 0, AbbrevIndex = None\<rparr>),
         ([7, 7], \<lparr>Count = 3, Weight = 3, AbbrevIndex = None\<rparr>),
         ([7, 7, 7], \<lparr>Count = 2, Weight = 4, AbbrevIndex = Some 5\<rparr>)],
      DefaultSingle = \<lparr>Count = 1, Weight = 0, AbbrevIndex = Some 1\<rparr>,
      DefaultMultiple = \<lparr>Count = 0, Weight = 0, AbbrevIndex = Some 2\<rparr>,
      BlockEnter = \<lparr>Count = 0, Weight = 0, AbbrevIndex = Some 3\<rparr>,
      BlockExit = \<lparr>Count = 0, Weight = 0, AbbrevIndex = Some 4\<rparr>,
      Align = \<lparr>Count = 0, Weight = 0, AbbrevIndex = None\<rparr>\<rparr>"

definition writer_example :: AbbrevAssignWriter where
  "writer_example =
     \<lparr>Root = root_example, Output = [], Buffer = [], BufferCapacity = 3,
      DefaultValues = [], AbbrevFormat = Varuint32, DefaultFormat = Varint64,
      LoopSizeFormat = Varuint64\<rparr>"

text \<open>
  Bookkeeping for the coverage proof.  \<open>sameConfig w0 w\<close>: the writer \<open>w\<close> has the
  abbreviation indices, capacity and formats of \<open>w0\<close>.  \<open>covers w0 w vs\<close>: what \<open>w\<close>
  has written since \<open>w0\<close> is a sequence of groups, and the values of those groups,
  followed by the queued defaults and the buffered values, are \<open>vs\<close>.
\<close>

definition singlesAssigned :: "AbbrevAssignWriter \<Rightarrow> bool" where
  "singlesAssigned w \<longleftrightarrow>
     AbbrevIndex (DefaultSingle (Root w)) \<noteq> None
     \<and> AbbrevIndex (DefaultMultiple (Root w)) \<noteq> None"

definition sameConfig :: "AbbrevAssignWriter \<Rightarrow> AbbrevAssignWriter \<Rightarrow> bool" where
  "sameConfig w0 w \<longleftrightarrow>
     getAbbrevIndex (Root w) = getAbbrevIndex (Root w0)
     \<and> DefaultSingle (Root w) = DefaultSingle (Root w0)
     \<and> DefaultMultiple (Root w) = DefaultMultiple (Root w0)
     \<and> BufferCapacity w = BufferCapacity w0
     \<and> AbbrevFormat w = AbbrevFormat w0
     \<and> DefaultFormat w = DefaultFormat w0
     \<and> LoopSizeFormat w = LoopSizeFormat w0"

definition covers ::
  "AbbrevAssignWriter \<Rightarrow> AbbrevAssignWriter \<Rightarrow> IntType list \<Rightarrow> bool" where
  "covers w0 w vs \<longleftrightarrow>
     sameConfig w0 w
     \<and> (\<exists>gs cs. groupsCalls w0 gs = Some cs
            \<and> Output w = Output w0 @ map IntWrite cs
            \<and> concat (map groupValues gs) @ DefaultValues w @ Buffer w = vs)"

text \<open>
  The deepest node with an abbreviation index along a walk, as a function of the
  indices alone: \<open>pre\<close> is the path walked so far.
\<close>

fun deepest ::
  "(IntPtr \<Rightarrow> IntType option) \<Rightarrow> IntPtr \<Rightarrow> IntType list \<Rightarrow> IntPtr option \<Rightarrow> IntPtr option" where
  "deepest f pre [] M = M"
| "deepest f pre (v # vs) M =
     deepest f (pre @ [v]) vs (if f (pre @ [v]) \<noteq> None then Some (pre @ [v]) else M)"

text \<open>
  Reading the output back.  The writer behind \<open>Writer\<close> holds the values it received,
  each as converted by the write method that received it.  \<open>decodeGroups\<close> reads
  them group by group: the index of \<open>DefaultSingle\<close> is followed by one value; the
  index of \<open>DefaultMultiple\<close> by a count and that many values; the index of an integer
  node stands for the values along the node's path.  The result is the sequence of
  values the groups stand for, \<open>None\<close> when the values do not split into groups.
\<close>

definition pathOfIndex :: "RootCountNode \<Rightarrow> IntType \<Rightarrow> IntPtr option" where
  "pathOfIndex R Index =
     find (\<lambda>p. p \<noteq> [] \<and> getAbbrevIndex R p = Some Index) (map fst (Successors R))"

function decodeGroups :: "AbbrevAssignWriter \<Rightarrow> IntType list \<Rightarrow> IntType list option" where
  "decodeGroups w [] = Some []"
| "decodeGroups w (Index # rest) =
     (if AbbrevIndex (DefaultSingle (Root w)) = Some Index then
        (case rest of
           [] \<Rightarrow> None
         | v # rest1 \<Rightarrow>
             (case decodeGroups w rest1 of None \<Rightarrow> None | Some vs \<Rightarrow> Some (v # vs)))
      else if AbbrevIndex (DefaultMultiple (Root w)) = Some Index then
        (case rest of
           [] \<Rightarrow> None
         | n # rest1 \<Rightarrow>
             if length rest1 < unat n then None
             else (case decodeGroups w (drop (unat n) rest1) of
                     None \<Rightarrow> None
                   | Some vs \<Rightarrow> Some (take (unat n) rest1 @ vs)))
      else
        (case pathOfIndex (Root w) Index of
           None \<Rightarrow> None
         | Some p \<Rightarrow>
             (case decodeGroups w rest of None \<Rightarrow> None | Some vs \<Rightarrow> Some (p @ vs))))"
  by pat_completeness auto
termination
  by (relation "measure (\<lambda>(w, vs). length vs)") auto

text \<open>
  \<open>survives Format v\<close>: the value \<open>v\<close> is received unchanged when written in the
  format.  \<open>indicesDistinct w\<close>: the two default singletons have abbreviation indices,
  and no two of these and the integer nodes share an index.
\<close>

definition survives :: "IntTypeFormat \<Rightarrow> IntType \<Rightarrow> bool" where
  "survives Format v \<longleftrightarrow> callValue (formatCall Format v) = v"

definition indicesDistinct :: "AbbrevAssignWriter \<Rightarrow> bool" where
  "indicesDistinct w \<longleftrightarrow>
     AbbrevIndex (DefaultSingle (Root w)) \<noteq> None
     \<and> AbbrevIndex (DefaultMultiple (Root w)) \<noteq> None
     \<and> AbbrevIndex (DefaultSingle (Root w)) \<noteq> AbbrevIndex (DefaultMultiple (Root w))
     \<and> (\<forall>p. p \<noteq> [] \<and> getAbbrevIndex (Root w) p \<noteq> None \<longrightarrow>
            getAbbrevIndex (Root w) p \<noteq> AbbrevIndex (DefaultSingle (Root w))
            \<and> getAbbrevIndex (Root w) p \<noteq> AbbrevIndex (DefaultMultiple (Root w)))
     \<and> (\<forall>p q. p \<noteq> [] \<and> q \<noteq> [] \<and> getAbbrevIndex (Root w) p \<noteq> None
              \<and> getAbbrevIndex (Root w) p = getAbbrevIndex (Root w) q \<longrightarrow> p = q)"

definition indicesSurvive :: "AbbrevAssignWriter \<Rightarrow> bool" where
  "indicesSurvive w \<longleftrightarrow>
     (\<forall>Index. AbbrevIndex (DefaultSingle (Root w)) = Some Index
               \<or> AbbrevIndex (DefaultMultiple (Root w)) = Some Index
               \<or> (\<exists>p. getAbbrevIndex (Root w) p = Some Index)
        \<longrightarrow> survives (AbbrevFormat w) Index)"

fun groupSurvives :: "AbbrevAssignWriter \<Rightarrow> Group \<Rightarrow> bool" where
  "groupSurvives w (AbbrevGroup p) = True"
| "groupSurvives w (DefaultSingleGroup v) = survives (DefaultFormat w) v"
| "groupSurvives w (DefaultMultipleGroup vs) =
     ((\<forall>v \<in> set vs. survives (DefaultFormat w) v)
      \<and> unat (callValue (formatCall (LoopSizeFormat w) (of_nat (length vs)))) = length vs)"

section \<open>Theorems\<close>

subsection \<open>Header values\<close>

lemma readHeaderValue_index_mono:
  "HeaderIndex r \<le> HeaderIndex (snd (snd (readHeaderValue f r)))"
  by (simp add: readHeaderValue_def Let_def)

lemma readHeaderValues_index_mono:
  "HeaderIndex r \<le> HeaderIndex (readHeaderValues fs r)"
proof (induction fs arbitrary: r)
  case Nil
  show ?case by simp
next
  case (Cons f fs)
  have "HeaderIndex r \<le> HeaderIndex (snd (snd (readHeaderValue f r)))"
    by (rule readHeaderValue_index_mono)
  also have "\<dots> \<le> HeaderIndex (readHeaderValues fs (snd (snd (readHeaderValue f r))))"
    by (rule Cons.IH)
  finally show ?case by simp
qed

text \<open>
  C10.  \<open>readHeaderValue\<close> returns true exactly when an unconsumed entry exists at the
  header index and its recorded format is the requested one, and then \<open>Value\<close> is the
  stored value and the index has moved on by one.  Whenever it returns false \<open>Value\<close>
  is 0.  On a format mismatch the index is advanced all the same, and after any run of
  further calls the index stays beyond the mismatched entry, so no later call reads it.
\<close>

theorem readHeaderValue_contract:
  "(fst (readHeaderValue Format r) \<longleftrightarrow>
      HeaderIndex r < length (Header r) \<and> snd (Header r ! HeaderIndex r) = Format)
   \<and> (fst (readHeaderValue Format r) \<longrightarrow>
        fst (snd (readHeaderValue Format r)) = fst (Header r ! HeaderIndex r)
        \<and> HeaderIndex (snd (snd (readHeaderValue Format r))) = HeaderIndex r + 1)
   \<and> (\<not> fst (readHeaderValue Format r) \<longrightarrow> fst (snd (readHeaderValue Format r)) = 0)
   \<and> (HeaderIndex r \<ge> length (Header r) \<longrightarrow> snd (snd (readHeaderValue Format r)) = r)
   \<and> (HeaderIndex r < length (Header r) \<and> snd (Header r ! HeaderIndex r) \<noteq> Format \<longrightarrow>
        HeaderIndex (snd (snd (readHeaderValue Format r))) = HeaderIndex r + 1
        \<and> (\<forall>fs. HeaderIndex r <
                 HeaderIndex (readHeaderValues fs (snd (snd (readHeaderValue Format r))))))
   \<and> Header (snd (snd (readHeaderValue Format r))) = Header r"
proof -
  have mism: "HeaderIndex r <
        HeaderIndex (readHeaderValues fs (snd (snd (readHeaderValue Format r))))"
    if "HeaderIndex r < length (Header r)" for fs
  proof -
    have "HeaderIndex (snd (snd (readHeaderValue Format r))) = HeaderIndex r + 1"
      using that by (simp add: readHeaderValue_def Let_def)
    moreover have "HeaderIndex (snd (snd (readHeaderValue Format r)))
          \<le> HeaderIndex (readHeaderValues fs (snd (snd (readHeaderValue Format r))))"
      by (rule readHeaderValues_index_mono)
    ultimately show ?thesis by simp
  qed
  show ?thesis
    using mism by (auto simp: readHeaderValue_def Let_def)
qed

theorem readHeaderValue_contract_witness:
  "readHeaderValue Varuint32 \<lparr>Header = [(7, Uint8), (9, Varuint32)], HeaderIndex = 0\<rparr>
     = (False, 0, \<lparr>Header = [(7, Uint8), (9, Varuint32)], HeaderIndex = 1\<rparr>)
   \<and> readHeaderValue Varuint32 \<lparr>Header = [(7, Uint8), (9, Varuint32)], HeaderIndex = 1\<rparr>
     = (True, 9, \<lparr>Header = [(7, Uint8), (9, Varuint32)], HeaderIndex = 2\<rparr>)
   \<and> (\<forall>fs. 0 < HeaderIndex (readHeaderValues fs
         (snd (snd (readHeaderValue Varuint32
            \<lparr>Header = [(7, Uint8), (9, Varuint32)], HeaderIndex = 0\<rparr>)))))"
  using readHeaderValue_contract
    [of Varuint32 "\<lparr>Header = [(7, Uint8), (9, Varuint32)], HeaderIndex = 0\<rparr>"]
  by (simp add: readHeaderValue_def)

subsection \<open>Error reporting of the compressor\<close>

text \<open>
  C7.  With a non-null \<open>Input\<close> the conjunction \<open>Input == nullptr && ...\<close> is false
  whatever the reader has recorded: for a reader with errors, \<open>errorsFound()\<close> still
  returns false, and no compressor state makes it return true.
\<close>

theorem errorsFound_never_true:
  "errorsFound (c\<lparr>Input := Some \<lparr>ErrorsFound = True\<rparr>\<rparr>) = Inr False
   \<and> errorsFound c \<noteq> Inr True"
  by (simp add: errorsFound_def split: option.splits)

subsection \<open>Headroom\<close>

lemma headroom_wrap: "((x :: size_t) + 100 \<le> x) \<longleftrightarrow> 18446744073709551516 \<le> unat x"
  apply unat_arith
  apply simp
  done

text \<open>
  C3.  On an input that is not frozen, with the read position at address 0 and 200
  bytes buffered (twice the headroom), \<open>hasEnoughHeadroom()\<close> is false: the buffered
  size does not enter the comparison.  On an unfrozen input the test holds only where
  the addition wraps around, within 100 bytes of the largest address.
\<close>

theorem hasEnoughHeadroom_ignores_stream_size:
  "hasEnoughHeadroom \<lparr>isEofFrozen = False, CurByteAddress = 0, streamSize = 200\<rparr> = False
   \<and> hasEnoughHeadroom (p\<lparr>streamSize := n\<rparr>) = hasEnoughHeadroom p
   \<and> hasEnoughHeadroom p
       = (isEofFrozen p \<or> 18446744073709551516 \<le> unat (CurByteAddress p))"
  by (simp add: hasEnoughHeadroom_def kResumeHeadroom_def headroom_wrap)

subsection \<open>Stream checks\<close>


subsection \<open>Peek\<close>

text \<open>
  The claim C5 as stated, at a concrete input: on a frozen input, peeking at the
  constant 5 with \<open>LastReadValue = 0\<close> returns 5 and leaves \<open>LastReadValue = 5\<close>, not
  the value it had on entry.
\<close>

theorem read_OpPeek_overwrites_LastReadValue:
  "read rd_example (Node OpPeek 0 [] [Node OpU8Const 5 [] []]) Interpreter_frozen
     = Some (Inr (5, Interpreter_frozen\<lparr>LastReadValue := 5\<rparr>))
   \<and> LastReadValue Interpreter_frozen = 0
   \<and> LastReadValue (Interpreter_frozen\<lparr>LastReadValue := 5\<rparr>) \<noteq> LastReadValue Interpreter_frozen
   \<and> hasEnoughHeadroom (ReadPos Interpreter_frozen)"
  by (simp add: Interpreter_frozen_def Interpreter_init_def hasEnoughHeadroom_def)

text \<open>
  C5 (amended).  For every expression \<open>e\<close>: when \<open>read(e)\<close> returns a value,
  \<open>Peek(e)\<close> returns that value, leaves the read cursor at the position it had on
  entry, and leaves \<open>LastReadValue\<close> equal to the value peeked; when \<open>read(e)\<close>
  fails, so does \<open>Peek(e)\<close>.  (Either read returns only with headroom, which here
  means on a frozen input.)
\<close>

theorem read_OpPeek_effect:
  "(\<forall>v st1. read rd e st = Some (Inr (v, st1)) \<longrightarrow>
      hasEnoughHeadroom (ReadPos st)
      \<and> read rd (Node OpPeek x nm (e # ks)) st
          = Some (Inr (v, st1\<lparr>LastReadValue := v,
                 ReadPos := (ReadPos st1)\<lparr>CurByteAddress := CurByteAddress (ReadPos st)\<rparr>\<rparr>))
      \<and> CurByteAddress (ReadPos (st1\<lparr>LastReadValue := v,
                 ReadPos := (ReadPos st1)\<lparr>CurByteAddress := CurByteAddress (ReadPos st)\<rparr>\<rparr>))
          = CurByteAddress (ReadPos st)
      \<and> LastReadValue (st1\<lparr>LastReadValue := v,
                 ReadPos := (ReadPos st1)\<lparr>CurByteAddress := CurByteAddress (ReadPos st)\<rparr>\<rparr>) = v)
   \<and> (\<forall>err. read rd e st = Some (Inl err) \<longrightarrow>
         read rd (Node OpPeek x nm (e # ks)) st = Some (Inl err))"
proof -
  have gate: "hasEnoughHeadroom (ReadPos st)" if "read rd e st = Some r" for r
    using that by (cases e) (simp split: if_splits)
  show ?thesis
    by (auto simp: Let_def dest: gate)
qed

theorem read_OpPeek_effect_witness:
  "read rd_example (Node OpPeek 0 [] [Node OpUint8NoArgs 0 [] []])
      (Interpreter_frozen\<lparr>LastReadValue := 7\<rparr>)
     = Some (Inr (0x42, Interpreter_frozen\<lparr>LastReadValue := 0x42\<rparr>))"
  using read_OpPeek_effect [of rd_example "Node OpUint8NoArgs 0 [] []"
      "Interpreter_frozen\<lparr>LastReadValue := 7\<rparr>" 0 "[]" "[]"]
  by (simp add: rd_example_def Interpreter_frozen_def Interpreter_init_def
      hasEnoughHeadroom_def)

subsection \<open>Opcode assembly\<close>





subsection \<open>Block-size back-patching\<close>

text \<open>
  The claim C8 as stated, at a concrete input: \<open>setMinimizeBlockSize(true)\<close> leaves the
  compressor as it was, the interpreter's \<open>MinimizeBlockSize\<close> is false as constructed,
  and \<open>decompressBlock\<close> back-patches the block size with \<open>writeFixedBlockSize\<close>; no
  \<open>writeVarintBlockSize\<close> and no \<open>moveBlock\<close> is called.
\<close>

theorem setMinimizeBlockSize_no_effect:
  "setMinimizeBlockSize True compressor_example = compressor_example
   \<and> MinimizeBlockSize Interpreter_init = False
   \<and> map_sum id WriterCalls
        (decompressBlock ops_example (\<lambda>n st. Inr st) (\<lambda>st. Inr st) None Interpreter_init)
      = Inr [Call_writeFixedBlockSize \<lparr>CurAddress = 0\<rparr> 0,
             Call_writeFixedBlockSize \<lparr>CurAddress = 0\<rparr> 0]"
  by (simp add: setMinimizeBlockSize_def Interpreter_init_def decompressBlock_def
      decompressBlock_enter_def decompressBlock_backpatch_def evalOrCopy_def ops_example_def
      Let_def)

text \<open>
  C8 (amended).  \<open>IntCompressor::setMinimizeBlockSize\<close> discards its argument and
  changes nothing.  In \<open>decompressBlock\<close> the back-patch is chosen by the interpreter's
  own member \<open>MinimizeBlockSize\<close>: when it is false the discovered length is written
  with \<open>writeFixedBlockSize\<close>; when it is true the length is written with
  \<open>writeVarintBlockSize\<close> and, when the address after that write differs from the
  address after the reservation, the block is shifted with \<open>moveBlock\<close>.
\<close>

theorem decompressBlock_backpatch_choice:
  assumes "evalOrCopy eval copyToEob Code (decompressBlock_enter ops st) = Inr st2"
  shows "setMinimizeBlockSize NewValue c = c
    \<and> (\<exists>st'. decompressBlock ops eval copyToEob Code st = Inr st'
         \<and> WriterCalls st' = WriterCalls st2 @
             (let BlockStart = WritePos st;
                  NewSize = getBlockSize ops BlockStart (WritePos st2);
                  SizeAfterSizeWrite = getStreamAddress ops (WritePos (decompressBlock_enter ops st));
                  BlockStart1 = writeVarintBlockSize ops BlockStart NewSize;
                  SizeAfterBackPatch = getStreamAddress ops BlockStart1;
                  Diff = SizeAfterSizeWrite - SizeAfterBackPatch
              in if \<not> MinimizeBlockSize st2
                 then [Call_writeFixedBlockSize BlockStart NewSize]
                 else Call_writeVarintBlockSize BlockStart NewSize #
                      (if Diff \<noteq> 0
                       then [Call_moveBlock BlockStart1 SizeAfterSizeWrite
                               ((getStreamAddress ops (WritePos st2) - Diff) - SizeAfterBackPatch)]
                       else [])))"
  using assms
  by (simp add: setMinimizeBlockSize_def decompressBlock_def decompressBlock_backpatch_def
      Let_def)

theorem decompressBlock_backpatch_choice_witness:
  "\<exists>st'. decompressBlock ops_example (\<lambda>n st. Inr st) (\<lambda>st. Inr st) None
            (Interpreter_init\<lparr>MinimizeBlockSize := True\<rparr>) = Inr st'
         \<and> WriterCalls st' =
             [Call_writeFixedBlockSize \<lparr>CurAddress = 0\<rparr> 0,
              Call_writeVarintBlockSize \<lparr>CurAddress = 0\<rparr> 0,
              Call_moveBlock \<lparr>CurAddress = 1\<rparr> 5 0]"
  using decompressBlock_backpatch_choice [of "\<lambda>n st. Inr st" "\<lambda>st. Inr st" None ops_example
      "Interpreter_init\<lparr>MinimizeBlockSize := True\<rparr>"
      "decompressBlock_enter ops_example (Interpreter_init\<lparr>MinimizeBlockSize := True\<rparr>)"]
  by (simp add: evalOrCopy_def decompressBlock_enter_def ops_example_def Interpreter_init_def
      Let_def)

subsection \<open>The rewriter: helper facts\<close>

lemma popValuesFromBuffer_eq:
  "popValuesFromBuffer i w = w\<lparr>Buffer := drop i (Buffer w)\<rparr>"
  by (induction i arbitrary: w) (auto simp: drop_Suc)

lemma fold_writeValueFormat:
  "fold (\<lambda>V. writeValueFormat V F) vs w
     = w\<lparr>Output := Output w @ map (\<lambda>V. IntWrite (formatCall F V)) vs\<rparr>"
  by (induction vs arbitrary: w) (simp_all add: writeValueFormat_def)

lemma flushDefaultValues_cases:
  "flushDefaultValues w =
     (if DefaultValues w = [] then Inr w
      else case AbbrevIndex ((if length (DefaultValues w) = 1 then DefaultSingle
                              else DefaultMultiple) (Root w)) of
             None \<Rightarrow> Inl AbbreviationMissing
           | Some Index \<Rightarrow>
               Inr (w\<lparr>Output := Output w @
                        IntWrite (formatCall (AbbrevFormat w) Index) #
                        (if length (DefaultValues w) = 1 then []
                         else [IntWrite (formatCall (LoopSizeFormat w)
                                 (of_nat (length (DefaultValues w))))]) @
                        map (\<lambda>V. IntWrite (formatCall (DefaultFormat w) V)) (DefaultValues w),
                      DefaultValues := []\<rparr>))"
proof (cases "DefaultValues w")
  case Nil
  then show ?thesis by (simp add: flushDefaultValues_def)
next
  case (Cons v vs)
  then show ?thesis
    by (cases vs)
       (simp_all add: flushDefaultValues_def Let_def writeValueFormat_def
          fold_writeValueFormat split: option.splits)
qed

lemma flushDefaultValues_frame:
  assumes "flushDefaultValues w = Inr w1"
  shows "Buffer w1 = Buffer w" "BufferCapacity w1 = BufferCapacity w" "Root w1 = Root w"
    "DefaultValues w1 = []" "AbbrevFormat w1 = AbbrevFormat w"
    "DefaultFormat w1 = DefaultFormat w" "LoopSizeFormat w1 = LoopSizeFormat w"
  using assms
  by (auto simp: flushDefaultValues_cases split: if_splits option.splits)

lemma forwardAbbrevValue_frame:
  assumes "forwardAbbrevValue k w = Inr w1"
  shows "Buffer w1 = Buffer w" "BufferCapacity w1 = BufferCapacity w" "Root w1 = Root w"
    "DefaultValues w1 = []" "AbbrevFormat w1 = AbbrevFormat w"
    "DefaultFormat w1 = DefaultFormat w" "LoopSizeFormat w1 = LoopSizeFormat w"
  using assms
  by (auto simp: forwardAbbrevValue_def writeValueFormat_def split: sum.splits
      dest: flushDefaultValues_frame)

lemma lookup_ptr: "snd (lookup R Nd Value) = Nd @ [Value]"
  by (simp add: lookup_def Let_def split: option.splits)

lemma lookup_getAbbrevIndex:
  "getAbbrevIndex (fst (lookup R Nd Value)) p = getAbbrevIndex R p"
  by (auto simp: lookup_def Let_def getAbbrevIndex_def newCountNode_def map_add_def
      split: option.splits)

lemma lookup_singletons:
  "DefaultSingle (fst (lookup R Nd Value)) = DefaultSingle R"
  "DefaultMultiple (fst (lookup R Nd Value)) = DefaultMultiple R"
  "BlockEnter (fst (lookup R Nd Value)) = BlockEnter R"
  "BlockExit (fst (lookup R Nd Value)) = BlockExit R"
  by (simp_all add: lookup_def Let_def split: option.splits)

lemma collect_deepest:
  "collect Values Nd M R = (R1, Nd1, M1) \<Longrightarrow>
     M1 = deepest (getAbbrevIndex R) (case Nd of None \<Rightarrow> [] | Some n \<Rightarrow> n) Values M
     \<and> getAbbrevIndex R1 = getAbbrevIndex R
     \<and> DefaultSingle R1 = DefaultSingle R \<and> DefaultMultiple R1 = DefaultMultiple R
     \<and> BlockEnter R1 = BlockEnter R \<and> BlockExit R1 = BlockExit R"
proof (induction Values arbitrary: Nd M R)
  case Nil
  then show ?case by simp
next
  case (Cons v vs)
  define n where "n = (case Nd of None \<Rightarrow> [] | Some n \<Rightarrow> n)"
  define R' where "R' = fst (lookup R n v)"
  have lk: "(case Nd of Some n \<Rightarrow> lookup R n v | None \<Rightarrow> lookup R [] v) = (R', n @ [v])"
    by (cases Nd) (simp_all add: n_def R'_def prod_eq_iff lookup_ptr)
  have ab: "getAbbrevIndex R' = getAbbrevIndex R"
    by (rule ext) (simp add: R'_def lookup_getAbbrevIndex)
  from Cons.prems
  have "collect vs (Some (n @ [v]))
          (if hasAbbrevIndex R' (n @ [v]) then Some (n @ [v]) else M) R' = (R1, Nd1, M1)"
    by (simp add: lk)
  from Cons.IH [OF this]
  have "M1 = deepest (getAbbrevIndex R') (n @ [v]) vs
               (if hasAbbrevIndex R' (n @ [v]) then Some (n @ [v]) else M)"
    and "getAbbrevIndex R1 = getAbbrevIndex R'"
    and "DefaultSingle R1 = DefaultSingle R'" and "DefaultMultiple R1 = DefaultMultiple R'"
    and "BlockEnter R1 = BlockEnter R'" and "BlockExit R1 = BlockExit R'"
    by simp_all
  moreover have "DefaultSingle R' = DefaultSingle R" "DefaultMultiple R' = DefaultMultiple R"
    "BlockEnter R' = BlockEnter R" "BlockExit R' = BlockExit R"
    by (simp_all add: R'_def lookup_singletons)
  ultimately show ?case
    unfolding ab hasAbbrevIndex_def n_def [symmetric] by simp
qed


lemma deepest_Some:
  assumes "deepest f pre vs M = Some m"
  shows "(M = Some m \<and> (\<forall>p. prefix p vs \<and> p \<noteq> [] \<longrightarrow> f (pre @ p) = None))
       \<or> (\<exists>q. prefix q vs \<and> q \<noteq> [] \<and> m = pre @ q \<and> f m \<noteq> None
              \<and> (\<forall>p. prefix p vs \<and> p \<noteq> [] \<and> f (pre @ p) \<noteq> None \<longrightarrow> length p \<le> length q))"
  using assms
proof (induction vs arbitrary: pre M)
  case Nil
  then show ?case by simp
next
  case (Cons v vs)
  let ?M = "if f (pre @ [v]) \<noteq> None then Some (pre @ [v]) else M"
  from Cons.prems have d: "deepest f (pre @ [v]) vs ?M = Some m" by simp
  from Cons.IH [OF d] consider
    (keep) "?M = Some m" "\<forall>p. prefix p vs \<and> p \<noteq> [] \<longrightarrow> f ((pre @ [v]) @ p) = None"
  | (deeper) q where "prefix q vs" "q \<noteq> []" "m = (pre @ [v]) @ q" "f m \<noteq> None"
      "\<forall>p. prefix p vs \<and> p \<noteq> [] \<and> f ((pre @ [v]) @ p) \<noteq> None \<longrightarrow> length p \<le> length q"
    by blast
  then show ?case
  proof cases
    case keep
    show ?thesis
    proof (cases "f (pre @ [v]) = None")
      case True
      with keep(1) have "M = Some m" by simp
      moreover have "f (pre @ p) = None" if "prefix p (v # vs)" "p \<noteq> []" for p
      proof -
        from that obtain q where q: "p = v # q" "prefix q vs" by (auto simp: prefix_Cons)
        show ?thesis
        proof (cases "q = []")
          case True with q \<open>f (pre @ [v]) = None\<close> show ?thesis by simp
        next
          case False with keep(2) q show ?thesis by auto
        qed
      qed
      ultimately show ?thesis by blast
    next
      case False
      with keep(1) have m: "m = pre @ [v]" by simp
      have "length p \<le> length [v]"
        if "prefix p (v # vs)" "p \<noteq> []" "f (pre @ p) \<noteq> None" for p
      proof -
        from that obtain q where q: "p = v # q" "prefix q vs" by (auto simp: prefix_Cons)
        have "q = []"
        proof (rule ccontr)
          assume "q \<noteq> []"
          with keep(2) q have "f ((pre @ [v]) @ q) = None" by blast
          with that(3) q show False by simp
        qed
        with q show ?thesis by simp
      qed
      with m False have "prefix [v] (v # vs) \<and> [v] \<noteq> [] \<and> m = pre @ [v] \<and> f m \<noteq> None
          \<and> (\<forall>p. prefix p (v # vs) \<and> p \<noteq> [] \<and> f (pre @ p) \<noteq> None
                 \<longrightarrow> length p \<le> length [v])"
        by auto
      then show ?thesis by blast
    qed
  next
    case deeper
    have "length p \<le> length (v # q)"
      if "prefix p (v # vs)" "p \<noteq> []" "f (pre @ p) \<noteq> None" for p
    proof -
      from that obtain r where r: "p = v # r" "prefix r vs" by (auto simp: prefix_Cons)
      show ?thesis
      proof (cases "r = []")
        case True with r show ?thesis by simp
      next
        case False
        with deeper(5) r that(3) have "length r \<le> length q" by auto
        with r show ?thesis by simp
      qed
    qed
    with deeper have "prefix (v # q) (v # vs) \<and> v # q \<noteq> [] \<and> m = pre @ (v # q) \<and> f m \<noteq> None
        \<and> (\<forall>p. prefix p (v # vs) \<and> p \<noteq> [] \<and> f (pre @ p) \<noteq> None
               \<longrightarrow> length p \<le> length (v # q))"
      by auto
    then show ?thesis by blast
  qed
qed


lemma writeFromBuffer_eq:
  assumes "Buffer w \<noteq> []"
  shows "writeFromBuffer w =
     (case deepest (getAbbrevIndex (Root w)) [] (Buffer w) None of
        None \<Rightarrow>
          Inr (w\<lparr>Root := fst (collect (Buffer w) None None (Root w)),
                 DefaultValues := DefaultValues w @ [Buffer w ! 0],
                 Buffer := tl (Buffer w)\<rparr>)
      | Some m \<Rightarrow>
          (case getAbbrevIndex (Root w) m of
             None \<Rightarrow> Inl AbbreviationMissing
           | Some Index \<Rightarrow>
               (case forwardAbbrevValue Index
                       (w\<lparr>Root := fst (collect (Buffer w) None None (Root w))\<rparr>) of
                  Inl e \<Rightarrow> Inl e
                | Inr w2 \<Rightarrow> Inr (w2\<lparr>Buffer := drop (getPathLength m) (Buffer w)\<rparr>))))"
proof -
  obtain R1 Nd M where c: "collect (Buffer w) None None (Root w) = (R1, Nd, M)"
    by (metis prod_cases3)
  from collect_deepest [OF c]
  have M: "M = deepest (getAbbrevIndex (Root w)) [] (Buffer w) None"
    and ab: "getAbbrevIndex R1 = getAbbrevIndex (Root w)"
    by simp_all
  show ?thesis
  proof (cases M)
    case None
    with assms c M show ?thesis
      by (simp add: writeFromBuffer_def forwardOtherValue_def popValuesFromBuffer_eq drop_Suc)
  next
    case (Some m)
    with assms c M ab show ?thesis
      by (auto simp: writeFromBuffer_def popValuesFromBuffer_eq
          dest: forwardAbbrevValue_frame(1) split: option.splits sum.splits)
  qed
qed

lemma writeFromBuffer_frame:
  assumes "writeFromBuffer w = Inr w1"
  shows "BufferCapacity w1 = BufferCapacity w"
    and "length (Buffer w1) \<le> length (Buffer w)"
    and "Buffer w \<noteq> [] \<Longrightarrow> length (Buffer w1) < length (Buffer w)"
proof -
  show "BufferCapacity w1 = BufferCapacity w"
  proof (cases "Buffer w = []")
    case True with assms show ?thesis by (simp add: writeFromBuffer_def)
  next
    case False
    with assms show ?thesis
      by (auto simp: writeFromBuffer_eq split: option.splits sum.splits
          dest: forwardAbbrevValue_frame(2))
  qed
  show "Buffer w \<noteq> [] \<Longrightarrow> length (Buffer w1) < length (Buffer w)"
    using assms by (rule writeFromBuffer_shrinks)
  then show "length (Buffer w1) \<le> length (Buffer w)"
    using assms by (cases "Buffer w = []") (auto simp: writeFromBuffer_def)
qed

lemma writeUntilBufferEmpty_frame:
  "writeUntilBufferEmpty w = Inr w1 \<Longrightarrow>
     Buffer w1 = [] \<and> BufferCapacity w1 = BufferCapacity w"
proof (induction w rule: writeUntilBufferEmpty.induct)
  case (1 w)
  show ?case
  proof (cases "Buffer w = []")
    case True
    with "1.prems" show ?thesis by (simp add: writeUntilBufferEmpty.simps)
  next
    case False
    with "1.prems" obtain w' where w': "writeFromBuffer w = Inr w'"
      and rest: "writeUntilBufferEmpty w' = Inr w1"
      by (subst (asm) writeUntilBufferEmpty.simps) (auto split: sum.splits)
    from "1.IH" [OF False w' rest] writeFromBuffer_frame(1) [OF w'] show ?thesis by simp
  qed
qed

lemma bufferValue_bound:
  assumes "length (Buffer w) < BufferCapacity w" and "bufferValue v w = Inr w1"
  shows "length (Buffer w1) < BufferCapacity w1 \<and> BufferCapacity w1 = BufferCapacity w"
proof (cases "Suc (length (Buffer w)) = BufferCapacity w")
  case True
  with assms have wf: "writeFromBuffer (w\<lparr>Buffer := Buffer w @ [v]\<rparr>) = Inr w1"
    by (simp add: bufferValue_def Buffer_full_def Let_def)
  from writeFromBuffer_frame(1,3) [OF wf] True show ?thesis by simp
next
  case False
  with assms show ?thesis
    by (auto simp: bufferValue_def Buffer_full_def Let_def)
qed

lemma writeActionBlock_bound:
  assumes "0 < BufferCapacity w" and "writeActionBlock Nd w = Inr (b, w1)"
  shows "length (Buffer w1) < BufferCapacity w1 \<and> BufferCapacity w1 = BufferCapacity w"
proof -
  from assms(2) obtain u1 u2 Index where u1: "writeUntilBufferEmpty w = Inr u1"
    and u2: "flushDefaultValues u1 = Inr u2"
    and u3: "forwardAbbrevValue Index u2 = Inr w1"
    by (auto simp: writeActionBlock_def split: sum.splits option.splits)
  from writeUntilBufferEmpty_frame [OF u1] flushDefaultValues_frame(1,2) [OF u2]
    forwardAbbrevValue_frame(1,2) [OF u3] assms(1)
  show ?thesis by simp
qed

lemma writeAction_bound:
  assumes "length (Buffer w) < BufferCapacity w" and "writeAction fwd Sym w = Inr (b, w1)"
  shows "length (Buffer w1) < BufferCapacity w1 \<and> BufferCapacity w1 = BufferCapacity w"
proof -
  from assms(1) have pos: "0 < BufferCapacity w" by simp
  show ?thesis
  proof (cases Sym)
    case None with assms show ?thesis by (auto simp: writeAction_def)
  next
    case (Some s)
    show ?thesis
    proof (cases "s = Block_enter \<or> s = Block_exit")
      case True
      with Some assms(2) obtain Nd where "writeActionBlock Nd w = Inr (b, w1)"
        by (auto simp: writeAction_def)
      from writeActionBlock_bound [OF pos this] show ?thesis .
    next
      case False
      with Some assms show ?thesis by (cases s) (auto simp: writeAction_def)
    qed
  qed
qed

lemma writeFreezeEof_bound:
  assumes "length (Buffer w) < BufferCapacity w" and "writeFreezeEof w = Inr w1"
  shows "length (Buffer w1) < BufferCapacity w1 \<and> BufferCapacity w1 = BufferCapacity w"
proof -
  from assms(2) obtain u1 u2 where u1: "writeUntilBufferEmpty w = Inr u1"
    and u2: "flushDefaultValues u1 = Inr u2"
    and w1: "w1 = u2\<lparr>Output := Output u2 @ [FreezeEof]\<rparr>"
    by (auto simp: writeFreezeEof_def split: sum.splits)
  from writeUntilBufferEmpty_frame [OF u1] flushDefaultValues_frame(1,2) [OF u2] w1 assms(1)
  show ?thesis by simp
qed

subsection \<open>Greedy longest match\<close>



subsection \<open>Buffer bound\<close>

text \<open>
  C9.  If the ring buffer holds fewer values than its capacity, then after any public
  operation (an integer write method or \<open>writeValue\<close>, \<open>writeAction\<close>,
  \<open>writeFreezeEof\<close>) that returns it again holds fewer values than its capacity, which
  does not change.  \<open>bufferValue\<close> pushes the value and runs one step of
  \<open>writeFromBuffer\<close> exactly when the push fills the buffer, and a step of
  \<open>writeFromBuffer\<close> on a non-empty buffer removes at least one value.
\<close>

theorem buffer_bound_invariant:
  assumes "length (Buffer w) < BufferCapacity w"
  shows "(\<forall>w1. perform fwd op w = Inr w1 \<longrightarrow>
            length (Buffer w1) < BufferCapacity w1 \<and> BufferCapacity w1 = BufferCapacity w)
       \<and> bufferValue v w =
           (if Suc (length (Buffer w)) = BufferCapacity w
            then writeFromBuffer (w\<lparr>Buffer := Buffer w @ [v]\<rparr>)
            else Inr (w\<lparr>Buffer := Buffer w @ [v]\<rparr>))
       \<and> (\<forall>u u1. Buffer u \<noteq> [] \<and> writeFromBuffer u = Inr u1 \<longrightarrow>
            length (Buffer u1) < length (Buffer u))"
proof -
  have a: "length (Buffer w1) < BufferCapacity w1 \<and> BufferCapacity w1 = BufferCapacity w"
    if p: "perform fwd op w = Inr w1" for w1
  proof (cases op)
    case (CallWrite x)
    with p obtain v' where "bufferValue v' w = Inr w1"
      by (cases x) (auto simp: writeInt_def writeValue_def)
    with assms show ?thesis by (rule bufferValue_bound)
  next
    case (CallWriteAction Sym)
    with p obtain b where "writeAction fwd Sym w = Inr (b, w1)"
      by (simp split: sum.splits prod.splits)
    with assms show ?thesis by (rule writeAction_bound)
  next
    case CallWriteFreezeEof
    with p have "writeFreezeEof w = Inr w1" by simp
    with assms show ?thesis by (rule writeFreezeEof_bound)
  qed
  have b: "bufferValue v w =
           (if Suc (length (Buffer w)) = BufferCapacity w
            then writeFromBuffer (w\<lparr>Buffer := Buffer w @ [v]\<rparr>)
            else Inr (w\<lparr>Buffer := Buffer w @ [v]\<rparr>))"
    using assms by (simp add: bufferValue_def Buffer_full_def Let_def)
  have c: "length (Buffer u1) < length (Buffer u)"
    if "Buffer u \<noteq> [] \<and> writeFromBuffer u = Inr u1" for u u1
    using that by (erule_tac conjE) (rule writeFromBuffer_shrinks)
  show ?thesis
    apply (rule conjI)
    using a apply blast
    apply (rule conjI)
     apply (rule b)
    using c by blast
qed

theorem buffer_bound_invariant_witness:
  "length (Buffer (writer_example\<lparr>Buffer := [7, 7]\<rparr>))
     < BufferCapacity (writer_example\<lparr>Buffer := [7, 7]\<rparr>)
   \<and> perform (\<lambda>s. True) (CallWrite (FedInt (WriteUint8 7))) (writer_example\<lparr>Buffer := [7, 7]\<rparr>)
       = Inr (writer_example\<lparr>Output := [IntWrite (WriteVaruint32 5)]\<rparr>)
   \<and> length (Buffer (writer_example\<lparr>Output := [IntWrite (WriteVaruint32 5)]\<rparr>))
       < BufferCapacity (writer_example\<lparr>Output := [IntWrite (WriteVaruint32 5)]\<rparr>)"
proof -
  let ?w = "writer_example\<lparr>Buffer := [7, 7]\<rparr>"
  have h: "length (Buffer ?w) < BufferCapacity ?w" by (simp add: writer_example_def)
  have run: "perform (\<lambda>s. True) (CallWrite (FedInt (WriteUint8 7))) ?w
       = Inr (writer_example\<lparr>Output := [IntWrite (WriteVaruint32 5)]\<rparr>)"
    by (simp add: writeInt_def bufferValue_def Buffer_full_def writeFromBuffer_def
        writer_example_def root_example_def flushDefaultValues_def forwardAbbrevValue_def
        writeValueFormat_def formatCall_def getPathLength_def lookup_def
        hasAbbrevIndex_def getAbbrevIndex_def Let_def)
  from buffer_bound_invariant [OF h, of "\<lambda>s. True" "CallWrite (FedInt (WriteUint8 7))" 0]
    run h
  show ?thesis by simp
qed

subsection \<open>The rewriter: coverage\<close>

lemma groupsCalls_snoc:
  "groupsCalls w gs = Some cs \<Longrightarrow> groupCalls w g = Some ds \<Longrightarrow>
     groupsCalls w (gs @ [g]) = Some (cs @ ds)"
  by (induction gs arbitrary: cs) (auto split: option.splits)

lemma coversI:
  assumes "sameConfig w0 w" and "groupsCalls w0 gs = Some cs"
    and "Output w = Output w0 @ map IntWrite cs"
    and "concat (map groupValues gs) @ DefaultValues w @ Buffer w = vs"
  shows "covers w0 w vs"
  using assms unfolding covers_def by blast

lemma covers_flush:
  assumes cov: "covers w0 w vs" and sg: "singlesAssigned w0"
  shows "\<exists>w1. flushDefaultValues w = Inr w1 \<and> covers w0 w1 vs
           \<and> DefaultValues w1 = [] \<and> Buffer w1 = Buffer w"
proof -
  from cov obtain gs cs where cfg: "sameConfig w0 w"
    and gs: "groupsCalls w0 gs = Some cs"
    and out: "Output w = Output w0 @ map IntWrite cs"
    and vs: "concat (map groupValues gs) @ DefaultValues w @ Buffer w = vs"
    unfolding covers_def by blast
  from sg obtain ks km where ks: "AbbrevIndex (DefaultSingle (Root w0)) = Some ks"
    and km: "AbbrevIndex (DefaultMultiple (Root w0)) = Some km"
    unfolding singlesAssigned_def by auto
  show ?thesis
  proof (cases "DefaultValues w")
    case Nil
    then have "flushDefaultValues w = Inr w" by (simp add: flushDefaultValues_cases)
    with cov Nil show ?thesis by simp
  next
    case (Cons v rest)
    show ?thesis
    proof (cases rest)
      case Nil
      let ?w1 = "w\<lparr>Output := Output w @ [IntWrite (formatCall (AbbrevFormat w) ks),
                     IntWrite (formatCall (DefaultFormat w) v)], DefaultValues := []\<rparr>"
      from Cons Nil ks cfg have fl: "flushDefaultValues w = Inr ?w1"
        by (simp add: flushDefaultValues_cases sameConfig_def)
      have g: "groupCalls w0 (DefaultSingleGroup v)
                 = Some [formatCall (AbbrevFormat w) ks, formatCall (DefaultFormat w) v]"
        using ks cfg by (simp add: sameConfig_def)
      have "covers w0 ?w1 vs"
      proof (rule coversI [OF _ groupsCalls_snoc [OF gs g]])
        show "sameConfig w0 ?w1" using cfg by (simp add: sameConfig_def)
        show "Output ?w1 = Output w0 @ map IntWrite
                (cs @ [formatCall (AbbrevFormat w) ks, formatCall (DefaultFormat w) v])"
          using out by simp
        show "concat (map groupValues (gs @ [DefaultSingleGroup v]))
                @ DefaultValues ?w1 @ Buffer ?w1 = vs"
          using vs Cons Nil by simp
      qed
      with fl show ?thesis by simp
    next
      case (Cons v2 rest2)
      let ?dv = "DefaultValues w"
      let ?calls = "formatCall (AbbrevFormat w) km #
                    formatCall (LoopSizeFormat w) (of_nat (length ?dv)) #
                    map (formatCall (DefaultFormat w)) ?dv"
      let ?w1 = "w\<lparr>Output := Output w @ map IntWrite ?calls, DefaultValues := []\<rparr>"
      from \<open>DefaultValues w = v # rest\<close> Cons have len: "2 \<le> length ?dv" by simp
      then have "?dv \<noteq> []" "length ?dv \<noteq> 1" by auto
      with km cfg have fl: "flushDefaultValues w = Inr ?w1"
        by (simp add: flushDefaultValues_cases sameConfig_def comp_def)
      have g: "groupCalls w0 (DefaultMultipleGroup ?dv) = Some ?calls"
        using km cfg len by (simp add: sameConfig_def)
      have "covers w0 ?w1 vs"
      proof (rule coversI [OF _ groupsCalls_snoc [OF gs g]])
        show "sameConfig w0 ?w1" using cfg by (simp add: sameConfig_def)
        show "Output ?w1 = Output w0 @ map IntWrite (cs @ ?calls)"
          using out by simp
        show "concat (map groupValues (gs @ [DefaultMultipleGroup ?dv]))
                @ DefaultValues ?w1 @ Buffer ?w1 = vs"
          using vs by simp
      qed
      with fl show ?thesis by simp
    qed
  qed
qed

lemma covers_abbrev:
  assumes cov: "covers w0 w vs" and dv: "DefaultValues w = []"
    and m: "prefix m (Buffer w)" "m \<noteq> []" "getAbbrevIndex (Root w0) m = Some k"
  shows "covers w0 ((writeValueFormat k (AbbrevFormat w) w)
                      \<lparr>Buffer := drop (getPathLength m) (Buffer w)\<rparr>) vs"
proof -
  from cov obtain gs cs where cfg: "sameConfig w0 w"
    and gs: "groupsCalls w0 gs = Some cs"
    and out: "Output w = Output w0 @ map IntWrite cs"
    and vs: "concat (map groupValues gs) @ DefaultValues w @ Buffer w = vs"
    unfolding covers_def by blast
  let ?w1 = "(writeValueFormat k (AbbrevFormat w) w)
               \<lparr>Buffer := drop (getPathLength m) (Buffer w)\<rparr>"
  have g: "groupCalls w0 (AbbrevGroup m) = Some [formatCall (AbbrevFormat w) k]"
    using m cfg by (simp add: sameConfig_def)
  from m(1) have split: "m @ drop (getPathLength m) (Buffer w) = Buffer w"
    by (auto simp: prefix_def getPathLength_def)
  show ?thesis
  proof (rule coversI [OF _ groupsCalls_snoc [OF gs g]])
    show "sameConfig w0 ?w1" using cfg by (simp add: sameConfig_def writeValueFormat_def)
    show "Output ?w1 = Output w0 @ map IntWrite (cs @ [formatCall (AbbrevFormat w) k])"
      using out by (simp add: writeValueFormat_def)
    have "concat (map groupValues (gs @ [AbbrevGroup m])) @ DefaultValues ?w1 @ Buffer ?w1
            = concat (map groupValues gs) @ m @ drop (getPathLength m) (Buffer w)"
      using dv by (simp add: writeValueFormat_def)
    also have "\<dots> = vs" using vs dv split by simp
    finally show "concat (map groupValues (gs @ [AbbrevGroup m]))
                    @ DefaultValues ?w1 @ Buffer ?w1 = vs" .
  qed
qed

lemma covers_Root:
  assumes "covers w0 w vs" and "getAbbrevIndex R1 = getAbbrevIndex (Root w)"
    and "DefaultSingle R1 = DefaultSingle (Root w)"
    and "DefaultMultiple R1 = DefaultMultiple (Root w)"
  shows "covers w0 (w\<lparr>Root := R1\<rparr>) vs"
  using assms unfolding covers_def sameConfig_def by simp

lemma covers_step:
  assumes cov: "covers w0 w vs" and sg: "singlesAssigned w0"
  shows "\<exists>w1. writeFromBuffer w = Inr w1 \<and> covers w0 w1 vs"
proof (cases "Buffer w = []")
  case True
  with cov show ?thesis by (simp add: writeFromBuffer_def)
next
  case False
  obtain R1 Nd M where c: "collect (Buffer w) None None (Root w) = (R1, Nd, M)"
    by (metis prod_cases3)
  from collect_deepest [OF c]
  have M: "M = deepest (getAbbrevIndex (Root w)) [] (Buffer w) None"
    and R1: "getAbbrevIndex R1 = getAbbrevIndex (Root w)"
      "DefaultSingle R1 = DefaultSingle (Root w)"
      "DefaultMultiple R1 = DefaultMultiple (Root w)"
    by simp_all
  have R1eq: "fst (collect (Buffer w) None None (Root w)) = R1" using c by simp
  from covers_Root [OF cov R1] have cov1: "covers w0 (w\<lparr>Root := R1\<rparr>) vs" .
  from cov have cfg: "sameConfig w0 w" unfolding covers_def by blast
  show ?thesis
  proof (cases M)
    case None
    let ?w1 = "w\<lparr>Root := R1, DefaultValues := DefaultValues w @ [Buffer w ! 0],
                  Buffer := tl (Buffer w)\<rparr>"
    from None M False have wf: "writeFromBuffer w = Inr ?w1"
      by (simp add: writeFromBuffer_eq R1eq)
    from cov1 obtain gs cs where cfg1: "sameConfig w0 (w\<lparr>Root := R1\<rparr>)"
      and gs: "groupsCalls w0 gs = Some cs"
      and out: "Output w = Output w0 @ map IntWrite cs"
      and vs: "concat (map groupValues gs) @ DefaultValues w @ Buffer w = vs"
      unfolding covers_def by auto
    from False have hd: "[Buffer w ! 0] @ tl (Buffer w) = Buffer w"
      by (cases "Buffer w") simp_all
    have "covers w0 ?w1 vs"
    proof (rule coversI [OF _ gs])
      show "sameConfig w0 ?w1" using cfg1 by (simp add: sameConfig_def)
      show "Output ?w1 = Output w0 @ map IntWrite cs" using out by simp
      have "concat (map groupValues gs) @ DefaultValues ?w1 @ Buffer ?w1
              = concat (map groupValues gs) @ DefaultValues w @ ([Buffer w ! 0] @ tl (Buffer w))"
        by simp
      also have "\<dots> = vs" unfolding hd using vs .
      finally show "concat (map groupValues gs) @ DefaultValues ?w1 @ Buffer ?w1 = vs" .
    qed
    with wf show ?thesis by blast
  next
    case (Some m)
    with M have d: "deepest (getAbbrevIndex (Root w)) [] (Buffer w) None = Some m" by simp
    from deepest_Some [OF d] have m: "prefix m (Buffer w)" "m \<noteq> []"
      "getAbbrevIndex (Root w) m \<noteq> None"
      by auto
    then obtain k where k: "getAbbrevIndex (Root w) m = Some k" by auto
    with cfg have k0: "getAbbrevIndex (Root w0) m = Some k" by (simp add: sameConfig_def)
    from covers_flush [OF cov1 sg] obtain w2
      where fl: "flushDefaultValues (w\<lparr>Root := R1\<rparr>) = Inr w2"
        and cov2: "covers w0 w2 vs" and dv2: "DefaultValues w2 = []"
        and b2: "Buffer w2 = Buffer w"
      by auto
    let ?w3 = "(writeValueFormat k (AbbrevFormat w2) w2)
                 \<lparr>Buffer := drop (getPathLength m) (Buffer w)\<rparr>"
    from False d k fl have wf: "writeFromBuffer w = Inr ?w3"
      by (simp add: writeFromBuffer_eq R1eq forwardAbbrevValue_def)
    from covers_abbrev [OF cov2 dv2 _ m(2) k0] m(1) b2 have "covers w0 ?w3 vs" by simp
    with wf show ?thesis by blast
  qed
qed

lemma covers_drain:
  "covers w0 w vs \<Longrightarrow> singlesAssigned w0 \<Longrightarrow>
     \<exists>w1. writeUntilBufferEmpty w = Inr w1 \<and> covers w0 w1 vs \<and> Buffer w1 = []"
proof (induction w rule: writeUntilBufferEmpty.induct)
  case (1 w)
  show ?case
  proof (cases "Buffer w = []")
    case True
    with "1.prems" show ?thesis by (simp add: writeUntilBufferEmpty.simps)
  next
    case False
    from covers_step [OF "1.prems"] obtain w' where w': "writeFromBuffer w = Inr w'"
      and cov': "covers w0 w' vs" by blast
    from "1.IH" [OF False w' cov' "1.prems"(2)] obtain w1
      where "writeUntilBufferEmpty w' = Inr w1" "covers w0 w1 vs" "Buffer w1 = []"
      by blast
    moreover from False w' have "writeUntilBufferEmpty w = writeUntilBufferEmpty w'"
      by (subst writeUntilBufferEmpty.simps) simp
    ultimately show ?thesis by simp
  qed
qed

lemma covers_bufferValue:
  assumes cov: "covers w0 w vs" and sg: "singlesAssigned w0"
    and inv: "length (Buffer w) < BufferCapacity w"
  shows "\<exists>w1. bufferValue v w = Inr w1 \<and> covers w0 w1 (vs @ [v])
           \<and> length (Buffer w1) < BufferCapacity w1"
proof -
  let ?w' = "w\<lparr>Buffer := Buffer w @ [v]\<rparr>"
  from cov have cov': "covers w0 ?w' (vs @ [v])"
    unfolding covers_def sameConfig_def by auto
  have "\<exists>w1. bufferValue v w = Inr w1 \<and> covers w0 w1 (vs @ [v])"
  proof (cases "Suc (length (Buffer w)) = BufferCapacity w")
    case True
    with inv have "bufferValue v w = writeFromBuffer ?w'"
      by (simp add: bufferValue_def Buffer_full_def Let_def)
    with covers_step [OF cov' sg] show ?thesis by simp
  next
    case False
    with inv have "bufferValue v w = Inr ?w'"
      by (simp add: bufferValue_def Buffer_full_def Let_def)
    with cov' show ?thesis by simp
  qed
  then obtain w1 where w1: "bufferValue v w = Inr w1" "covers w0 w1 (vs @ [v])" by blast
  from bufferValue_bound [OF inv w1(1)] w1 show ?thesis by blast
qed

lemma covers_feedAll:
  "covers w0 w vs \<Longrightarrow> singlesAssigned w0 \<Longrightarrow> length (Buffer w) < BufferCapacity w \<Longrightarrow>
     \<exists>w1. feedAll S w = Inr w1 \<and> covers w0 w1 (vs @ map fedValue S)
        \<and> length (Buffer w1) < BufferCapacity w1"
proof (induction S arbitrary: w vs)
  case Nil
  then show ?case by simp
next
  case (Cons x S)
  have fx: "feed x w = bufferValue (fedValue x) w"
    by (cases x) (simp_all add: writeInt_def writeValue_def)
  from covers_bufferValue [OF Cons.prems, of "fedValue x"] obtain w'
    where w': "bufferValue (fedValue x) w = Inr w'"
      and cov': "covers w0 w' (vs @ [fedValue x])"
      and inv': "length (Buffer w') < BufferCapacity w'"
    by blast
  from Cons.IH [OF cov' Cons.prems(2) inv'] obtain w1
    where "feedAll S w' = Inr w1" "covers w0 w1 ((vs @ [fedValue x]) @ map fedValue S)"
      "length (Buffer w1) < BufferCapacity w1"
    by blast
  with fx w' show ?case by simp
qed

text \<open>
  With a 64-bit format the conversion to the parameter type of the write method loses
  nothing: the writer behind \<open>Writer\<close> receives the value itself.  With a narrower
  format it receives the value truncated to that width.
\<close>

lemma formatCall_64bit:
  "Format \<in> {Uint64, Varint64, Varuint64} \<Longrightarrow> callValue (formatCall Format Value) = Value"
  by (auto simp: formatCall_def)

text \<open>
  Feeding any sequence of values to a writer in its constructed state and freezing it
  succeeds and writes a sequence of groups whose values, before their conversion to
  the formats, are the values fed.
\<close>

lemma feed_freeze_groups:
  assumes "Buffer w = []" and "DefaultValues w = []" and "0 < BufferCapacity w"
    and "AbbrevIndex (DefaultSingle (Root w)) \<noteq> None"
    and "AbbrevIndex (DefaultMultiple (Root w)) \<noteq> None"
  shows "\<exists>w1 w2 gs cs.
           feedAll S w = Inr w1 \<and> writeFreezeEof w1 = Inr w2
           \<and> groupsCalls w gs = Some cs
           \<and> Output w2 = Output w @ map IntWrite cs @ [FreezeEof]
           \<and> concat (map groupValues gs) = map fedValue S
           \<and> Buffer w2 = [] \<and> DefaultValues w2 = []"
proof -
  have sg: "singlesAssigned w" using assms(4,5) by (simp add: singlesAssigned_def)
  have cov0: "covers w w []"
    by (rule coversI [of _ _ "[]" "[]"]) (simp_all add: sameConfig_def assms)
  have inv0: "length (Buffer w) < BufferCapacity w" using assms(1,3) by simp
  from covers_feedAll [OF cov0 sg inv0, of S] obtain w1
    where f: "feedAll S w = Inr w1" and cov1: "covers w w1 (map fedValue S)"
    by auto
  from covers_drain [OF cov1 sg] obtain u1
    where d: "writeUntilBufferEmpty w1 = Inr u1" and covu: "covers w u1 (map fedValue S)"
      and bu: "Buffer u1 = []"
    by blast
  from covers_flush [OF covu sg] obtain u2
    where fl: "flushDefaultValues u1 = Inr u2" and cov2: "covers w u2 (map fedValue S)"
      and dv2: "DefaultValues u2 = []" and b2: "Buffer u2 = Buffer u1"
    by blast
  let ?w2 = "u2\<lparr>Output := Output u2 @ [FreezeEof]\<rparr>"
  from d fl have fr: "writeFreezeEof w1 = Inr ?w2" by (simp add: writeFreezeEof_def)
  from cov2 dv2 b2 bu obtain gs cs where gs: "groupsCalls w gs = Some cs"
    and out: "Output u2 = Output w @ map IntWrite cs"
    and vs: "concat (map groupValues gs) = map fedValue S"
    unfolding covers_def by auto
  have "feedAll S w = Inr w1 \<and> writeFreezeEof w1 = Inr ?w2
           \<and> groupsCalls w gs = Some cs
           \<and> Output ?w2 = Output w @ map IntWrite cs @ [FreezeEof]
           \<and> concat (map groupValues gs) = map fedValue S
           \<and> Buffer ?w2 = [] \<and> DefaultValues ?w2 = []"
    using f fr gs out vs dv2 b2 bu by simp
  then show ?thesis by blast
qed

lemma pathOfIndex_unique:
  assumes "indicesDistinct w" and "p \<noteq> []" and "getAbbrevIndex (Root w) p = Some k"
  shows "pathOfIndex (Root w) k = Some p"
proof -
  let ?P = "\<lambda>q. q \<noteq> [] \<and> getAbbrevIndex (Root w) q = Some k"
  from assms(3) have "map_of (Successors (Root w)) p \<noteq> None"
    by (auto simp: getAbbrevIndex_def split: option.splits)
  then have "p \<in> set (map fst (Successors (Root w)))"
    by (auto simp: map_of_eq_None_iff)
  with assms(2,3) have "find ?P (map fst (Successors (Root w))) \<noteq> None"
    by (auto simp: find_None_iff)
  then obtain q where q: "find ?P (map fst (Successors (Root w))) = Some q" by blast
  then have "?P q" by (auto simp: find_Some_iff)
  with assms have "q = p"
    unfolding indicesDistinct_def by (metis option.distinct(1))
  with q show ?thesis by (simp add: pathOfIndex_def)
qed

lemma decodeGroups_group:
  assumes d: "indicesDistinct w" and s: "indicesSurvive w"
    and g: "groupCalls w g = Some cs" and f: "groupSurvives w g"
  shows "decodeGroups w (map callValue cs @ rest)
           = (case decodeGroups w rest of
                None \<Rightarrow> None
              | Some vs \<Rightarrow> Some (groupValues g @ vs))"
proof (cases g)
  case (AbbrevGroup p)
  with g obtain k where p: "p \<noteq> []" and k: "getAbbrevIndex (Root w) p = Some k"
    and cs: "cs = [formatCall (AbbrevFormat w) k]"
    by (auto split: if_splits option.splits)
  from s k have sv: "callValue (formatCall (AbbrevFormat w) k) = k"
    unfolding indicesSurvive_def survives_def by blast
  from d p k have "AbbrevIndex (DefaultSingle (Root w)) \<noteq> Some k"
    "AbbrevIndex (DefaultMultiple (Root w)) \<noteq> Some k"
    unfolding indicesDistinct_def by (metis option.distinct(1))+
  with pathOfIndex_unique [OF d p k] AbbrevGroup cs sv show ?thesis
    by (simp split: option.splits)
next
  case (DefaultSingleGroup v)
  with g obtain k where k: "AbbrevIndex (DefaultSingle (Root w)) = Some k"
    and cs: "cs = [formatCall (AbbrevFormat w) k, formatCall (DefaultFormat w) v]"
    by (auto split: option.splits)
  from s k have sv: "callValue (formatCall (AbbrevFormat w) k) = k"
    unfolding indicesSurvive_def survives_def by blast
  from f DefaultSingleGroup have "callValue (formatCall (DefaultFormat w) v) = v"
    by (simp add: survives_def)
  with DefaultSingleGroup cs sv k show ?thesis by (simp split: option.splits)
next
  case (DefaultMultipleGroup vs)
  with g obtain k where k: "AbbrevIndex (DefaultMultiple (Root w)) = Some k"
    and cs: "cs = formatCall (AbbrevFormat w) k #
                  formatCall (LoopSizeFormat w) (of_nat (length vs)) #
                  map (formatCall (DefaultFormat w)) vs"
    by (auto split: if_splits option.splits)
  from s k have sv: "callValue (formatCall (AbbrevFormat w) k) = k"
    unfolding indicesSurvive_def survives_def by blast
  from d k have nk: "AbbrevIndex (DefaultSingle (Root w)) \<noteq> Some k"
    unfolding indicesDistinct_def by auto
  from f DefaultMultipleGroup
  have n: "unat (callValue (formatCall (LoopSizeFormat w) (of_nat (length vs)))) = length vs"
    and vs: "map (\<lambda>v. callValue (formatCall (DefaultFormat w) v)) vs = vs"
    by (auto simp: survives_def map_idI)
  show ?thesis
    using DefaultMultipleGroup cs sv k nk n vs by (simp add: comp_def split: option.splits)
qed

lemma decodeGroups_groups:
  assumes d: "indicesDistinct w" and s: "indicesSurvive w"
  shows "groupsCalls w gs = Some cs \<Longrightarrow> (\<forall>g \<in> set gs. groupSurvives w g) \<Longrightarrow>
           decodeGroups w (map callValue cs) = Some (concat (map groupValues gs))"
proof (induction gs arbitrary: cs)
  case Nil
  then show ?case by simp
next
  case (Cons g gs)
  from Cons.prems(1) obtain c1 c2 where g: "groupCalls w g = Some c1"
    and gs: "groupsCalls w gs = Some c2" and cs: "cs = c1 @ c2"
    by (auto split: option.splits)
  from Cons.prems(2) have fg: "groupSurvives w g" and fgs: "\<forall>g \<in> set gs. groupSurvives w g"
    by simp_all
  from decodeGroups_group [OF d s g fg, of "map callValue c2"] Cons.IH [OF gs fgs] cs
  show ?case by simp
qed

lemma groupValues_length_le:
  "g \<in> set gs \<Longrightarrow> length (groupValues g) \<le> length (concat (map groupValues gs))"
  by (induction gs) auto

lemma loopSize_64bit:
  assumes "Format \<in> {Uint64, Varint64, Varuint64}" and "n < 2 ^ 64"
  shows "unat (callValue (formatCall Format (of_nat n))) = n"
proof -
  from assms(2) have "unat (of_nat n :: IntType) = n"
    by (simp add: unat_of_nat)
  with assms(1) show ?thesis by (auto simp: formatCall_def)
qed

text \<open>
  The claim C1 as stated, at a concrete input: with \<open>DefaultFormat = Uint8\<close> the
  value 263, fed alone, is written as a single default with the value 7, exactly as
  when 7 is fed; the group of the output stands for 7, not for the value fed.
\<close>

theorem rewriter_coverage_narrow_format:
  "(case feedAll [FedValue 263] (writer_example\<lparr>DefaultFormat := Uint8\<rparr>) of
      Inl e \<Rightarrow> Inl e | Inr w1 \<Rightarrow> map_sum id Output (writeFreezeEof w1))
     = Inr [IntWrite (WriteVaruint32 1), IntWrite (WriteUint8 7), FreezeEof]
   \<and> (case feedAll [FedValue 7] (writer_example\<lparr>DefaultFormat := Uint8\<rparr>) of
      Inl e \<Rightarrow> Inl e | Inr w1 \<Rightarrow> map_sum id Output (writeFreezeEof w1))
     = Inr [IntWrite (WriteVaruint32 1), IntWrite (WriteUint8 7), FreezeEof]
   \<and> decodeGroups (writer_example\<lparr>DefaultFormat := Uint8\<rparr>)
        (map callValue [WriteVaruint32 1, WriteUint8 7]) = Some [7]
   \<and> [7] \<noteq> map fedValue [FedValue 263]"
  by (simp add: writeValue_def bufferValue_def Buffer_full_def writeFromBuffer_def
      writeFreezeEof_def writeUntilBufferEmpty.simps
      writer_example_def root_example_def flushDefaultValues_def forwardAbbrevValue_def
      forwardOtherValue_def newCountNode_def
      writeValueFormat_def formatCall_def getPathLength_def lookup_def
      hasAbbrevIndex_def getAbbrevIndex_def Let_def)

text \<open>
  C1 (amended).  Take a writer with empty buffer and empty default queue and a buffer
  capacity above 0, whose abbreviation indices are distinct and survive
  \<open>AbbrevFormat\<close>.  For every sequence \<open>S\<close> of calls of the integer write methods and
  of \<open>writeValue\<close> whose values survive \<open>DefaultFormat\<close> and whose lengths up to that
  of \<open>S\<close> survive \<open>LoopSizeFormat\<close>: feeding \<open>S\<close> and then calling \<open>writeFreezeEof\<close>
  succeeds; the values written, read back group by group (an abbreviation index as
  its path's values, a single default as its one value, a multiple default as its
  \<open>n\<close> values), are exactly the values fed, in order; and the buffer and the default
  queue are empty at the end.
\<close>

theorem rewriter_coverage_decoded:
  assumes "Buffer w = []" and "DefaultValues w = []" and "0 < BufferCapacity w"
    and d: "indicesDistinct w" and s: "indicesSurvive w"
    and dv: "\<forall>x \<in> set S. survives (DefaultFormat w) (fedValue x)"
    and ls: "\<forall>n \<le> length S.
               unat (callValue (formatCall (LoopSizeFormat w) (of_nat n))) = n"
  shows "\<exists>w1 w2 cs.
           feedAll S w = Inr w1 \<and> writeFreezeEof w1 = Inr w2
           \<and> Output w2 = Output w @ map IntWrite cs @ [FreezeEof]
           \<and> decodeGroups w (map callValue cs) = Some (map fedValue S)
           \<and> Buffer w2 = [] \<and> DefaultValues w2 = []"
proof -
  from d have sg: "AbbrevIndex (DefaultSingle (Root w)) \<noteq> None"
    "AbbrevIndex (DefaultMultiple (Root w)) \<noteq> None"
    by (simp_all add: indicesDistinct_def)
  from feed_freeze_groups [OF assms(1-3) sg, of S] obtain w1 w2 gs cs
    where run: "feedAll S w = Inr w1" "writeFreezeEof w1 = Inr w2"
      and gs: "groupsCalls w gs = Some cs"
      and out: "Output w2 = Output w @ map IntWrite cs @ [FreezeEof]"
      and vs: "concat (map groupValues gs) = map fedValue S"
      and e: "Buffer w2 = []" "DefaultValues w2 = []"
    by blast
  have fits: "groupSurvives w g" if g: "g \<in> set gs" for g
  proof -
    from g have "set (groupValues g) \<subseteq> set (concat (map groupValues gs))" by auto
    with vs have sub: "set (groupValues g) \<subseteq> fedValue ` set S" by simp
    from groupValues_length_le [OF g] vs have len: "length (groupValues g) \<le> length S"
      by simp
    show ?thesis
    proof (cases g)
      case (AbbrevGroup p)
      then show ?thesis by simp
    next
      case (DefaultSingleGroup v)
      with sub dv show ?thesis by auto
    next
      case (DefaultMultipleGroup xs)
      with sub dv len ls show ?thesis by auto
    qed
  qed
  then have "\<forall>g \<in> set gs. groupSurvives w g" by blast
  from decodeGroups_groups [OF d s gs this] vs
  have "decodeGroups w (map callValue cs) = Some (map fedValue S)" by simp
  with run out e show ?thesis by blast
qed

theorem rewriter_coverage_decoded_witness:
  "\<exists>w1 w2 cs.
     feedAll [FedInt (WriteUint8 7), FedInt (WriteVaruint32 7), FedValue 7, FedInt (WriteVarint64 7)]
        writer_example = Inr w1
     \<and> writeFreezeEof w1 = Inr w2
     \<and> Output w2 = map IntWrite cs @ [FreezeEof]
     \<and> decodeGroups writer_example (map callValue cs) = Some [7, 7, 7, 7]
     \<and> Buffer w2 = [] \<and> DefaultValues w2 = []"
proof -
  let ?S = "[FedInt (WriteUint8 7), FedInt (WriteVaruint32 7), FedValue 7,
             FedInt (WriteVarint64 7)]"
  have h1: "Buffer writer_example = []" "DefaultValues writer_example = []"
    "0 < BufferCapacity writer_example"
    by (simp_all add: writer_example_def)
  have d: "indicesDistinct writer_example"
    by (auto simp: indicesDistinct_def writer_example_def root_example_def
        getAbbrevIndex_def split: if_splits)
  have s: "indicesSurvive writer_example"
    by (auto simp: indicesSurvive_def survives_def formatCall_def writer_example_def
        root_example_def getAbbrevIndex_def split: if_splits)
  have dv: "\<forall>x \<in> set ?S. survives (DefaultFormat writer_example) (fedValue x)"
    by (simp add: survives_def formatCall_def writer_example_def)
  have ls: "\<forall>n \<le> length ?S.
      unat (callValue (formatCall (LoopSizeFormat writer_example) (of_nat n))) = n"
    by (auto simp: writer_example_def intro!: loopSize_64bit)
  from rewriter_coverage_decoded [OF h1 d s dv ls]
  show ?thesis by (simp add: writer_example_def)
qed

text \<open>
  The scenarios S2 and S3 of the specification: 7, 7, 7, 7 with capacity 3 is written
  as index 5, then index 1 and the value 7; and 1, 2, 3 with no abbreviation matching
  is written as the index of \<open>DefaultMultiple\<close>, the count 3 and the three values.
\<close>

lemma scenario_S2:
  "(case feedAll [FedValue 7, FedValue 7, FedValue 7, FedValue 7] writer_example of
      Inl e \<Rightarrow> Inl e | Inr w1 \<Rightarrow> map_sum id Output (writeFreezeEof w1))
   = Inr [IntWrite (WriteVaruint32 5), IntWrite (WriteVaruint32 1), IntWrite (WriteVarint64 7),
          FreezeEof]"
  by (simp add: writeValue_def bufferValue_def Buffer_full_def writeFromBuffer_def
      writeFreezeEof_def writeUntilBufferEmpty.simps
      writer_example_def root_example_def flushDefaultValues_def forwardAbbrevValue_def
      forwardOtherValue_def newCountNode_def
      writeValueFormat_def formatCall_def getPathLength_def lookup_def
      hasAbbrevIndex_def getAbbrevIndex_def Let_def)

lemma scenario_S3:
  "(case feedAll [FedValue 1, FedValue 2, FedValue 3]
           (writer_example\<lparr>BufferCapacity := 5\<rparr>) of
      Inl e \<Rightarrow> Inl e | Inr w1 \<Rightarrow> map_sum id Output (writeFreezeEof w1))
   = Inr [IntWrite (WriteVaruint32 2), IntWrite (WriteVaruint64 3), IntWrite (WriteVarint64 1),
          IntWrite (WriteVarint64 2), IntWrite (WriteVarint64 3), FreezeEof]"
  by (simp add: writeValue_def bufferValue_def Buffer_full_def writeFromBuffer_def
      writeFreezeEof_def writeUntilBufferEmpty.simps
      writer_example_def root_example_def flushDefaultValues_def forwardAbbrevValue_def
      forwardOtherValue_def newCountNode_def
      writeValueFormat_def formatCall_def getPathLength_def lookup_def
      hasAbbrevIndex_def getAbbrevIndex_def Let_def)

end
